theory Spec2Isabelle
  imports Main "HOL-Library.Sublist" "HOL-Library.AList"
begin

section \<open>Build orchestration of \<open>build.py\<close>\<close>

text \<open>
  The development embeds the build script \<open>build.py\<close>: the target catalogs, the selection
  of build targets and cleanup scopes, the file helpers (\<open>mv\<close>, \<open>rm\<close>, \<open>rm_rf\<close>,
  \<open>write_if_diff\<close>), the header generators and the pipeline \<open>build_binary\<close>.
\<close>

subsection \<open>Catalogs (lines 71 to 80)\<close>

definition archs :: "string list" where
  "archs = [''armeabi-v7a'', ''x86'', ''arm64-v8a'', ''x86_64'']"

definition triples :: "string list" where
  "triples = [''armv7a-linux-androideabi'', ''i686-linux-android'',
              ''aarch64-linux-android'', ''x86_64-linux-android'']"

definition default_targets :: "string list" where
  "default_targets = [''magisk'', ''magiskinit'', ''magiskboot'', ''magiskpolicy'', ''busybox'']"

definition support_targets :: "string list" where
  "support_targets = default_targets @ [''resetprop'']"

definition rust_targets :: "string list" where
  "rust_targets = [''magisk'', ''magiskinit'', ''magiskboot'', ''magiskpolicy'']"

subsection \<open>Python sets of names\<close>

text \<open>
  A Python \<open>set\<close> of strings is held as a duplicate-free list of its members; the
  membership tests of the script are made through \<^const>\<open>set\<close>. The order of this list
  has no meaning: Python leaves the iteration order of a set to the hash values of the run,
  and wherever the script iterates over a set the members are taken in the order that the
  host gives (\<open>py_iter\<close>, below).
\<close>

definition py_set :: "string list \<Rightarrow> string list" where
  "py_set xs = remdups xs"

definition py_inter :: "string list \<Rightarrow> string list \<Rightarrow> string list" where
  "py_inter a b = filter (\<lambda>x. x \<in> set b) a"

definition py_add :: "string list \<Rightarrow> string \<Rightarrow> string list" where
  "py_add s x = (if x \<in> set s then s else s @ [x])"

subsection \<open>Target selection of \<open>build_binary\<close> (lines 363 to 371)\<close>

text \<open>
  \<open>requested\<close> is \<open>args.target\<close> after the default \<open>[]\<close> for a missing attribute. The
  result \<open>None\<close> is the early \<open>return\<close> of line 369; \<open>Some ts\<close> is the new value of
  \<open>args.target\<close>.
\<close>

definition select_targets :: "string list \<Rightarrow> string list option" where
  "select_targets requested =
     (if requested \<noteq> [] then
        (let t = py_inter (py_set requested) (py_set support_targets)
         in if t = [] then None else Some t)
      else Some default_targets)"

subsection \<open>Scope selection of \<open>cleanup\<close> (lines 499 to 506)\<close>

definition cleanup_support_targets :: "string list" where
  "cleanup_support_targets = [''native'', ''cpp'', ''rust'', ''java'']"

definition cleanup_targets :: "string list \<Rightarrow> string list" where
  "cleanup_targets requested =
     (if requested \<noteq> [] then
        (let t = py_inter (py_set requested) cleanup_support_targets
         in if ''native'' \<in> set t then py_add (py_add t ''cpp'') ''rust'' else t)
      else cleanup_support_targets)"

lemma set_py_set: "set (py_set xs) = set xs"
  by (simp add: py_set_def)

lemma set_py_inter: "set (py_inter a b) = set a \<inter> set b"
  by (auto simp: py_inter_def)

lemma set_py_add: "set (py_add s x) = insert x (set s)"
  by (auto simp: py_add_def)


subsection \<open>The file system\<close>

text \<open>
  The project tree is a tree of nodes: a file carries its read-only attribute and its
  content, a directory its entries in listing order. A path is the list of its
  components below the project root, as the arguments of \<open>Path(...)\<close> are. Contents are
  byte strings, the bytes as they stand on the disk.
\<close>

type_synonym path = "string list"

datatype node = File bool string | Dir "(string \<times> node) list"

fun lookup :: "node \<Rightarrow> path \<Rightarrow> node option" where
  "lookup n [] = Some n"
| "lookup (File ro c) (x # xs) = None"
| "lookup (Dir es) (x # xs) = (case map_of es x of None \<Rightarrow> None | Some c \<Rightarrow> lookup c xs)"

text \<open>\<open>put\<close> stores a node at a path whose parent is a directory (\<open>None\<close> otherwise).\<close>

fun put :: "node \<Rightarrow> path \<Rightarrow> node \<Rightarrow> node option" where
  "put n [] new = Some new"
| "put (File ro c) (x # xs) new = None"
| "put (Dir es) [x] new = Some (Dir (AList.update x new es))"
| "put (Dir es) (x # y # ys) new =
     (case map_of es x of
        None \<Rightarrow> None
      | Some c \<Rightarrow>
          (case put c (y # ys) new of
             None \<Rightarrow> None
           | Some c' \<Rightarrow> Some (Dir (AList.update x c' es))))"

fun del :: "node \<Rightarrow> path \<Rightarrow> node" where
  "del n [] = n"
| "del (File ro c) (x # xs) = File ro c"
| "del (Dir es) [x] = Dir (AList.delete x es)"
| "del (Dir es) (x # y # ys) =
     (case map_of es x of
        None \<Rightarrow> Dir es
      | Some c \<Rightarrow> Dir (AList.update x (del c (y # ys)) es))"

definition path_exists :: "node \<Rightarrow> path \<Rightarrow> bool" where
  "path_exists t p = (lookup t p \<noteq> None)"

definition is_dir :: "node \<Rightarrow> path \<Rightarrow> bool" where
  "is_dir t p = (case lookup t p of Some (Dir es) \<Rightarrow> True | _ \<Rightarrow> False)"

definition is_file :: "node \<Rightarrow> path \<Rightarrow> bool" where
  "is_file t p = (case lookup t p of Some (File ro c) \<Rightarrow> True | _ \<Rightarrow> False)"

text \<open>
  Relative paths are resolved against the working directory; \<open>..\<close> steps to the parent
  and stops at the project root, outside of which the model holds nothing.
\<close>

fun resolve :: "path \<Rightarrow> path \<Rightarrow> path" where
  "resolve cur [] = cur"
| "resolve cur (c # cs) =
     (if c = ''..'' then resolve (butlast cur) cs
      else if c = ''.'' then resolve cur cs
      else resolve (cur @ [c]) cs)"

subsection \<open>Exceptions and results\<close>

datatype exn =
    FileNotFoundError
  | PermissionError
  | IsADirectoryError
  | NotADirectoryError
  | FileExistsError
  | OSError
  | ShutilError
  | AttributeError
  | UnicodeDecodeError
  | SystemExit string

definition then_do :: "exn + 'a \<Rightarrow> ('a \<Rightarrow> exn + 'b) \<Rightarrow> exn + 'b" where
  "then_do m f = (case m of Inl e \<Rightarrow> Inl e | Inr x \<Rightarrow> f x)"

subsection \<open>The library calls on files\<close>

text \<open>
  The calls of \<open>os\<close>, \<open>shutil\<close> and \<open>pathlib\<close> that the script makes, on the tree. A missing
  parent raises \<open>NotADirectoryError\<close> when a file stands where a directory is needed and
  \<open>FileNotFoundError\<close> otherwise.
\<close>

definition missing_kind :: "node \<Rightarrow> path \<Rightarrow> exn" where
  "missing_kind t p =
     (if list_ex (is_file t) (butlast (prefixes p)) then NotADirectoryError
      else FileNotFoundError)"

text \<open>\<open>open(p, "rb").read()\<close>: the bytes of the file.\<close>

definition read_file :: "node \<Rightarrow> path \<Rightarrow> exn + string" where
  "read_file t p =
     (case lookup t p of
        None \<Rightarrow> Inl (missing_kind t p)
      | Some (Dir es) \<Rightarrow> Inl IsADirectoryError
      | Some (File ro c) \<Rightarrow> Inr c)"

text \<open>
  Opening a file for writing and writing bytes to it: creates or truncates; a read-only
  file refuses.
\<close>

definition write_file :: "node \<Rightarrow> path \<Rightarrow> string \<Rightarrow> exn + node" where
  "write_file t p text =
     (case lookup t p of
        Some (Dir es) \<Rightarrow> Inl IsADirectoryError
      | Some (File ro c) \<Rightarrow>
          (if ro then Inl PermissionError
           else (case put t p (File False text) of
                   None \<Rightarrow> Inl (missing_kind t p)
                 | Some t' \<Rightarrow> Inr t'))
      | None \<Rightarrow>
          (case put t p (File False text) of
             None \<Rightarrow> Inl (missing_kind t p)
           | Some t' \<Rightarrow> Inr t'))"

text \<open>
  \<open>Path.mkdir(exist_ok=True)\<close>, and with \<open>parents=True\<close>. With \<open>parents=True\<close> the missing
  ancestors are made first; when a regular file stands at a proper ancestor, the first
  \<open>os.mkdir\<close> fails with \<open>NotADirectoryError\<close>, which the call raises again since the path
  is no directory; a regular file at the path itself gives \<open>FileExistsError\<close>.
\<close>

definition mkdir :: "node \<Rightarrow> path \<Rightarrow> exn + node" where
  "mkdir t p =
     (case lookup t p of
        Some (Dir es) \<Rightarrow> Inr t
      | Some (File ro c) \<Rightarrow> Inl FileExistsError
      | None \<Rightarrow>
          (case put t p (Dir []) of
             None \<Rightarrow> Inl (missing_kind t p)
           | Some t' \<Rightarrow> Inr t'))"

definition make_dirs :: "node \<Rightarrow> path \<Rightarrow> exn + node" where
  "make_dirs t p = fold (\<lambda>q r. then_do r (\<lambda>t'. mkdir t' q)) (prefixes p) (Inr t)"

definition mkdir_parents :: "node \<Rightarrow> path \<Rightarrow> exn + node" where
  "mkdir_parents t p =
     (if list_ex (is_file t) (butlast (prefixes p)) then Inl NotADirectoryError
      else make_dirs t p)"

text \<open>
  \<open>os.remove\<close> and \<open>os.unlink\<close>. A read-only file cannot be removed on Windows
  (\<open>win\<close>); elsewhere the attribute of the file does not matter.
\<close>

definition os_unlink :: "bool \<Rightarrow> node \<Rightarrow> path \<Rightarrow> exn + node" where
  "os_unlink win t p =
     (case lookup t p of
        None \<Rightarrow> Inl (missing_kind t p)
      | Some (Dir es) \<Rightarrow> Inl (if win then PermissionError else IsADirectoryError)
      | Some (File ro c) \<Rightarrow> (if win \<and> ro then Inl PermissionError else Inr (del t p)))"

text \<open>\<open>os.chmod(p, stat.S_IWRITE)\<close>: clears the read-only attribute.\<close>

definition os_chmod_write :: "node \<Rightarrow> path \<Rightarrow> exn + node" where
  "os_chmod_write t p =
     (case lookup t p of
        None \<Rightarrow> Inl (missing_kind t p)
      | Some (Dir es) \<Rightarrow> Inr t
      | Some (File ro c) \<Rightarrow>
          (case put t p (File False c) of None \<Rightarrow> Inl (missing_kind t p) | Some t' \<Rightarrow> Inr t'))"

definition os_rmdir :: "node \<Rightarrow> path \<Rightarrow> exn + node" where
  "os_rmdir t p =
     (case lookup t p of
        None \<Rightarrow> Inl (missing_kind t p)
      | Some (File ro c) \<Rightarrow> Inl NotADirectoryError
      | Some (Dir es) \<Rightarrow> (if es = [] \<and> p \<noteq> [] then Inr (del t p) else Inl OSError))"

text \<open>
  \<open>shutil.move(src, dst)\<close>: into \<open>dst\<close> when it is a directory (refusing to replace an
  entry there), onto \<open>dst\<close> otherwise; a file replaces a file, a directory does not; a
  directory does not move into itself.
\<close>

definition shutil_move :: "node \<Rightarrow> path \<Rightarrow> path \<Rightarrow> exn + node" where
  "shutil_move t src dst =
     (case lookup t src of
        None \<Rightarrow> Inl (missing_kind t src)
      | Some n \<Rightarrow>
          (if is_dir t dst \<and> src = dst then Inr t
           else
             (let real_dst = (if is_dir t dst then dst @ [last src] else dst)
              in if src = [] then Inl OSError
                 else if is_dir t dst \<and> path_exists t real_dst then Inl ShutilError
                 else if prefix src real_dst then Inl ShutilError
                 else if is_dir t src \<and> path_exists t real_dst then Inl FileExistsError
                 else (case put (del t src) real_dst n of
                         None \<Rightarrow> Inl (missing_kind t real_dst)
                       | Some t' \<Rightarrow> Inr t'))))"

subsection \<open>The world of one run\<close>

text \<open>
  A run of the script acts on the project tree from a working directory. The log
  records, in order, the calls that reach outside the script: the messages of
  \<open>header\<close>, the external processes, the calls of \<open>shutil.move\<close>, the calls of
  \<open>write_if_diff\<close> and the writes it performs, and the removals. The output of \<open>vprint\<close>
  is not recorded.
\<close>

datatype cmdline =
    Argv "string list" "(string \<times> string) list"
  | Shell string

datatype event =
    Header string
  | Exec cmdline path
  | Move path path
  | WriteIfDiff path string
  | FileWrite path string
  | Remove path
  | RmTree path

record world =
  fs :: node
  cwd :: path
  trace :: "event list"

definition log :: "event \<Rightarrow> world \<Rightarrow> world" where
  "log e w = w\<lparr>trace := trace w @ [e]\<rparr>"

text \<open>
  \<open>os.chdir\<close> raises when the target is missing or is no directory, and leaves the working
  directory as it was.
\<close>

definition chdir :: "path \<Rightarrow> world \<Rightarrow> exn + world" where
  "chdir p w =
     (let q = resolve (cwd w) p
      in case lookup (fs w) q of
           None \<Rightarrow> Inl (missing_kind (fs w) q)
         | Some (File ro c) \<Rightarrow> Inl NotADirectoryError
         | Some (Dir es) \<Rightarrow> Inr (w\<lparr>cwd := q\<rparr>))"

text \<open>
  A \<open>Path\<close> of the script is relative to the working directory, or was made absolute
  by \<open>resolve()\<close> when the script started in the project root.
\<close>

datatype pypath = Rel path | Abs path

definition locate :: "world \<Rightarrow> pypath \<Rightarrow> path" where
  "locate w pp = (case pp of Rel p \<Rightarrow> resolve (cwd w) p | Abs p \<Rightarrow> p)"

text \<open>
  What the script takes from its host: the platform, the absolute path of the project
  root in which it starts, the paths under the SDK, the number of processors, the search
  path, the content of the installed \<open>ONDK_VERSION\<close> marker, the outcome of
  \<open>javac -version\<close>, the behaviour of external processes (exit status and effect on the
  tree), the \<open>lzma\<close> library, the byte strings that the codec of the locale decodes, and
  the rank of each member in the hash table of a set, which fixes the order of an
  iteration over that set.
\<close>

datatype lzma_check = CHECK_NONE | CHECK_CRC32 | CHECK_CRC64 | CHECK_SHA256

record host =
  is_windows :: bool
  project_root :: string
  sdk_path :: path
  cpu_count :: nat
  environ_PATH :: string
  ondk_version_file :: "string option"
  javac_returncode :: "int option"
  jdk_env :: "(string \<times> string) list"
  run_proc :: "cmdline \<Rightarrow> path \<Rightarrow> node \<Rightarrow> int \<times> node"
  lzma_compress :: "nat \<Rightarrow> lzma_check \<Rightarrow> string \<Rightarrow> string"
  lzma_decompress :: "string \<Rightarrow> string option"
  locale_decodes :: "string \<Rightarrow> bool"
  hash_rank :: "string list \<Rightarrow> string \<Rightarrow> nat"

record config =
  version :: string
  versionCode :: int
  ondkVersion :: "string option"

record args =
  target :: "string list option"
  release :: bool
  verbose :: bool

text \<open>\<open>error\<close> (line 27) prints the message and exits with status 1.\<close>

definition error :: "string \<Rightarrow> exn + 'a" where
  "error msg = Inl (SystemExit msg)"

definition header :: "string \<Rightarrow> world \<Rightarrow> world" where
  "header msg w = log (Header msg) w"

subsection \<open>Iteration over a set\<close>

text \<open>
  \<open>for x in s\<close> and \<open>" ".join(s)\<close> for a set \<open>s\<close> take the members in the order of the hash
  table, which the script does not control: the members sorted by the rank that the host
  gives them in this set. Every order of the members is the iteration order of some host,
  and two iterations over the same set agree.
\<close>

definition py_iter :: "host \<Rightarrow> string list \<Rightarrow> string list" where
  "py_iter h s = sort_key (hash_rank h s) s"

subsection \<open>Files opened in text mode\<close>

text \<open>
  The script reads and writes its generated headers in text mode with the encoding of the
  locale. A text is held as the byte string that encodes it, so that encoding does
  nothing and decoding succeeds on the byte strings that the codec accepts; every codec of
  a locale accepts ASCII. Reading translates the line endings CR LF and CR to LF
  (universal newlines); writing translates LF to the line ending of the platform, CR LF on
  Windows.
\<close>

definition decodable :: "host \<Rightarrow> string \<Rightarrow> bool" where
  "decodable h b = (list_all (\<lambda>c. (of_char c :: nat) < 128) b \<or> locale_decodes h b)"

fun universal_newlines :: "string \<Rightarrow> string" where
  "universal_newlines [] = []"
| "universal_newlines [c] = [if c = CHR 0x0D then CHR 0x0A else c]"
| "universal_newlines (c # d # ds) =
     (if c = CHR 0x0D
      then CHR 0x0A # (if d = CHR 0x0A then universal_newlines ds
                       else universal_newlines (d # ds))
      else c # universal_newlines (d # ds))"

definition newline_out :: "bool \<Rightarrow> string \<Rightarrow> string" where
  "newline_out win text =
     (if win then concat (map (\<lambda>c. if c = CHR 0x0A then [CHR 0x0D, CHR 0x0A] else [c]) text)
      else text)"

text \<open>\<open>open(p, "r").read()\<close> and \<open>open(p, "w").write(text)\<close>.\<close>

definition read_text :: "host \<Rightarrow> node \<Rightarrow> path \<Rightarrow> exn + string" where
  "read_text h t p =
     then_do (read_file t p)
       (\<lambda>b. if decodable h b then Inr (universal_newlines b) else Inl UnicodeDecodeError)"

definition write_text :: "host \<Rightarrow> node \<Rightarrow> path \<Rightarrow> string \<Rightarrow> exn + node" where
  "write_text h t p text = write_file t p (newline_out (is_windows h) text)"

subsection \<open>\<open>mv\<close>, \<open>rm\<close>, \<open>rm_on_error\<close>, \<open>rm_rf\<close> (lines 99 to 135)\<close>

text \<open>\<open>mv\<close> swallows every exception of \<open>shutil.move\<close>.\<close>

definition mv :: "pypath \<Rightarrow> pypath \<Rightarrow> world \<Rightarrow> exn + world" where
  "mv source dest w =
     (let src = locate w source; dst = locate w dest; w' = log (Move src dst) w
      in case shutil_move (fs w) src dst of
           Inl e \<Rightarrow> Inr w'
         | Inr t \<Rightarrow> Inr (w'\<lparr>fs := t\<rparr>))"

text \<open>\<open>rm\<close> swallows \<open>FileNotFoundError\<close> only.\<close>

definition rm :: "host \<Rightarrow> pypath \<Rightarrow> world \<Rightarrow> exn + world" where
  "rm h file w =
     (let p = locate w file; w' = log (Remove p) w
      in case os_unlink (is_windows h) (fs w) p of
           Inl e \<Rightarrow> (if e = FileNotFoundError then Inr w' else Inl e)
         | Inr t \<Rightarrow> Inr (w'\<lparr>fs := t\<rparr>))"

text \<open>
  \<open>rm_on_error\<close> is the handler \<open>shutil.rmtree\<close> calls with the path on which a call
  failed: clear the read-only attribute, unlink, and swallow \<open>FileNotFoundError\<close>.
\<close>

definition rm_on_error :: "bool \<Rightarrow> path \<Rightarrow> node \<Rightarrow> exn + node" where
  "rm_on_error win p t =
     (case os_chmod_write t p of
        Inl e \<Rightarrow> (if e = FileNotFoundError then Inr t else Inl e)
      | Inr t1 \<Rightarrow>
          (case os_unlink win t1 p of
             Inl e \<Rightarrow> (if e = FileNotFoundError then Inr t1 else Inl e)
           | Inr t2 \<Rightarrow> Inr t2))"

text \<open>
  \<open>shutil.rmtree(path, ignore_errors=False, onerror=rm_on_error)\<close>. A path that cannot
  be examined goes to the handler and the call returns. Otherwise the entries listed in
  a directory are removed in turn, sub-directories recursively and the rest by
  \<open>os.unlink\<close>, then the directory itself by \<open>os.rmdir\<close>; every failing call goes to the
  handler and the walk continues unless the handler raises. Listing a path that is not
  a directory fails and yields no entries.
\<close>

fun rmtree_walk :: "bool \<Rightarrow> path \<Rightarrow> node \<Rightarrow> node \<Rightarrow> exn + node"
  and rmtree_entries :: "bool \<Rightarrow> path \<Rightarrow> (string \<times> node) list \<Rightarrow> node \<Rightarrow> exn + node"
where
  "rmtree_walk win p (File ro c) t =
     then_do (rm_on_error win p t)
       (\<lambda>t1. case os_rmdir t1 p of Inl e \<Rightarrow> rm_on_error win p t1 | Inr t2 \<Rightarrow> Inr t2)"
| "rmtree_walk win p (Dir es) t =
     then_do (rmtree_entries win p es t)
       (\<lambda>t1. case os_rmdir t1 p of Inl e \<Rightarrow> rm_on_error win p t1 | Inr t2 \<Rightarrow> Inr t2)"
| "rmtree_entries win p [] t = Inr t"
| "rmtree_entries win p (e # es) t =
     then_do
       (case snd e of
          Dir ces \<Rightarrow> rmtree_walk win (p @ [fst e]) (snd e) t
        | File ro c \<Rightarrow>
            (case os_unlink win t (p @ [fst e]) of
               Inl x \<Rightarrow> rm_on_error win (p @ [fst e]) t
             | Inr t1 \<Rightarrow> Inr t1))
       (\<lambda>t1. rmtree_entries win p es t1)"

definition rmtree :: "bool \<Rightarrow> node \<Rightarrow> path \<Rightarrow> exn + node" where
  "rmtree win t p =
     (case lookup t p of
        None \<Rightarrow> rm_on_error win p t
      | Some n \<Rightarrow> rmtree_walk win p n t)"

definition rm_rf :: "host \<Rightarrow> pypath \<Rightarrow> world \<Rightarrow> exn + world" where
  "rm_rf h path w =
     (let p = locate w path; w' = log (RmTree p) w
      in then_do (rmtree (is_windows h) (fs w) p) (\<lambda>t. Inr (w'\<lparr>fs := t\<rparr>)))"

subsection \<open>\<open>write_if_diff\<close> (lines 307 to 315)\<close>

definition write_if_diff :: "host \<Rightarrow> pypath \<Rightarrow> string \<Rightarrow> world \<Rightarrow> exn + world" where
  "write_if_diff h file_name text w =
     (let p = locate w file_name; w0 = log (WriteIfDiff p text) w
      in then_do
           (if path_exists (fs w) p
            then then_do (read_text h (fs w) p) (\<lambda>orig. Inr (orig \<noteq> text))
            else Inr True)
           (\<lambda>do_write.
              if do_write
              then then_do (write_text h (fs w) p text)
                     (\<lambda>t. Inr (log (FileWrite p text) (w0\<lparr>fs := t\<rparr>)))
              else Inr w0))"

subsection \<open>Text\<close>

text \<open>
  The string operations the script uses: \<open>str\<close> of an integer, the format \<open>02X\<close>,
  \<open>startswith\<close>, \<open>" ".join\<close>, \<open>strip(" \t\r\n")\<close> and \<open>str\<close> of a \<open>Path\<close>.
\<close>

definition digit_char :: "nat \<Rightarrow> char" where
  "digit_char d = ''0123456789ABCDEF'' ! d"

fun str_nat :: "nat \<Rightarrow> string" where
  "str_nat n = (if n < 10 then [digit_char n] else str_nat (n div 10) @ [digit_char (n mod 10)])"

definition str_int :: "int \<Rightarrow> string" where
  "str_int i = (if i < 0 then ''-'' @ str_nat (nat (- i)) else str_nat (nat i))"

fun to_hex :: "nat \<Rightarrow> string" where
  "to_hex n = (if n < 16 then [digit_char n] else to_hex (n div 16) @ [digit_char (n mod 16)])"

text \<open>The two recursive equations are unfolded by hand, never by the simplifier.\<close>

declare str_nat.simps [simp del] to_hex.simps [simp del]

definition fmt_02X :: "nat \<Rightarrow> string" where
  "fmt_02X n = (let s = to_hex n in replicate (2 - length s) (CHR ''0'') @ s)"

definition startswith :: "string \<Rightarrow> string \<Rightarrow> bool" where
  "startswith s p = prefix p s"

fun join :: "string \<Rightarrow> string list \<Rightarrow> string" where
  "join sep [] = []"
| "join sep [x] = x"
| "join sep (x # y # ys) = x @ sep @ join sep (y # ys)"

definition is_space :: "char \<Rightarrow> bool" where
  "is_space c = (c \<in> set [CHR '' '', CHR 0x09, CHR 0x0D, CHR 0x0A])"

definition strip :: "string \<Rightarrow> string" where
  "strip s = rev (dropWhile is_space (rev (dropWhile is_space s)))"

definition path_str :: "bool \<Rightarrow> path \<Rightarrow> string" where
  "path_str win p = join (if win then [CHR 0x5C] else ''/'') p"

subsection \<open>Paths of the tool chain (lines 41 to 91)\<close>

definition EXE_EXT :: "host \<Rightarrow> string" where
  "EXE_EXT h = (if is_windows h then ''.exe'' else [])"

definition ndk_path :: "host \<Rightarrow> path" where
  "ndk_path h = sdk_path h @ [''ndk'', ''magisk'']"

definition ndk_build :: "host \<Rightarrow> path" where
  "ndk_build h = ndk_path h @ [''ndk-build'']"

definition rust_bin :: "host \<Rightarrow> path" where
  "rust_bin h = ndk_path h @ [''toolchains'', ''rust'', ''bin'']"

definition cargo :: "host \<Rightarrow> path" where
  "cargo h = rust_bin h @ [''cargo'' @ EXE_EXT h]"

text \<open>
  \<open>gradlew\<close> is resolved when the script starts: the absolute path of the wrapper in the
  project root.
\<close>

definition gradlew :: "host \<Rightarrow> string" where
  "gradlew h =
     project_root h @ (if is_windows h then [CHR 0x5C] else ''/'')
       @ ''gradlew'' @ (if is_windows h then ''.bat'' else [])"

definition native_gen_path :: path where
  "native_gen_path = [''native'', ''out'', ''generated'']"

subsection \<open>External processes (lines 138 to 143)\<close>

definition execv :: "host \<Rightarrow> string list \<Rightarrow> (string \<times> string) list \<Rightarrow> world \<Rightarrow> int \<times> world" where
  "execv h cmd env w =
     (let r = run_proc h (Argv cmd env) (cwd w) (fs w)
      in (fst r, (log (Exec (Argv cmd env) (cwd w)) w)\<lparr>fs := snd r\<rparr>))"

definition system :: "host \<Rightarrow> string \<Rightarrow> world \<Rightarrow> int \<times> world" where
  "system h cmd w =
     (let r = run_proc h (Shell cmd) (cwd w) (fs w)
      in (fst r, (log (Exec (Shell cmd) (cwd w)) w)\<lparr>fs := snd r\<rparr>))"

subsection \<open>\<open>xz\<close> and \<open>binary_dump\<close> (lines 154 and 318 to 325)\<close>

definition xz :: "host \<Rightarrow> string \<Rightarrow> string" where
  "xz h data = lzma_compress h 9 CHECK_NONE data"

text \<open>The loop of \<open>binary_dump\<close> over \<open>enumerate\<close> of the compressed bytes.\<close>

fun dump_loop :: "nat \<Rightarrow> string \<Rightarrow> string \<Rightarrow> string" where
  "dump_loop i [] out_str = out_str"
| "dump_loop i (c # cs) out_str =
     dump_loop (Suc i) cs
       ((if i mod 16 = 0 then out_str @ ''\<newline>'' else out_str)
          @ ''0x'' @ fmt_02X (of_char c) @ '','')"

definition binary_dump :: "string \<Rightarrow> string \<Rightarrow> (string \<Rightarrow> string) \<Rightarrow> string" where
  "binary_dump src var_name compressor =
     dump_loop 0 (compressor src) (''constexpr unsigned char '' @ var_name @ ''[] = {'')
       @ ''\<newline>};\<newline>''"

subsection \<open>\<open>dump_bin_header\<close> and \<open>dump_flag_header\<close> (lines 328 to 352)\<close>

definition dump_bin_header_arch :: "host \<Rightarrow> string \<Rightarrow> world \<Rightarrow> exn + world" where
  "dump_bin_header_arch h arch w =
     then_do (read_file (fs w) (locate w (Rel [''native'', ''out'', arch, ''libinit-ld.so''])))
       (\<lambda>src. write_if_diff h (Abs (native_gen_path @ [arch @ ''_binaries.h'']))
                 (binary_dump src ''init_ld_xz'' (xz h)) w)"

definition dump_bin_header :: "host \<Rightarrow> world \<Rightarrow> exn + world" where
  "dump_bin_header h w =
     then_do (mkdir_parents (fs w) native_gen_path)
       (\<lambda>t. fold (\<lambda>arch r. then_do r (dump_bin_header_arch h arch)) archs (Inr (w\<lparr>fs := t\<rparr>)))"

definition flag_template :: string where
  \<open>flag_template =
     ''#pragma once\<newline>'' @
     ''#define quote(s)            #s\<newline>'' @
     ''#define str(s)              quote(s)\<newline>'' @
     ''#define MAGISK_FULL_VER     MAGISK_VERSION "(" str(MAGISK_VER_CODE) ")"\<newline>'' @
     ''#define NAME_WITH_VER(name) str(name) " " MAGISK_FULL_VER\<newline>''\<close>

definition flag_txt :: "config \<Rightarrow> args \<Rightarrow> string" where
  \<open>flag_txt cfg a =
     flag_template
       @ (''#define MAGISK_VERSION      "'' @ version cfg @ ''"\<newline>'')
       @ (''#define MAGISK_VER_CODE     '' @ str_int (versionCode cfg) @ ''\<newline>'')
       @ (''#define MAGISK_DEBUG        '' @ str_int (if release a then 0 else 1) @ ''\<newline>'')\<close>

definition dump_flag_header :: "host \<Rightarrow> config \<Rightarrow> args \<Rightarrow> world \<Rightarrow> exn + world" where
  "dump_flag_header h cfg a w =
     then_do (mkdir_parents (fs w) native_gen_path)
       (\<lambda>t. write_if_diff h (Abs (native_gen_path @ [''flags.h''])) (flag_txt cfg a)
               (w\<lparr>fs := t\<rparr>))"

subsection \<open>\<open>clean_elf\<close> (lines 205 to 229)\<close>

definition clean_elf :: "host \<Rightarrow> world \<Rightarrow> world" where
  \<open>clean_elf h w =
     (let elf_cleaner =
            (if is_windows h then [''tools'', ''elf-cleaner.exe'']
             else [''native'', ''out'', ''elf-cleaner'']);
          w1 =
            (if is_windows h then w
             else if \<not> path_exists (fs w) (locate w (Rel elf_cleaner))
             then snd (execv h
                    [''gcc'',
                     ''-DPACKAGE_NAME="termux-elf-cleaner"'',
                     ''-DPACKAGE_VERSION="2.1.1"'',
                     ''-DCOPYRIGHT="Copyright (C) 2022 Termux."'',
                     ''tools/termux-elf-cleaner/elf-cleaner.cpp'',
                     ''tools/termux-elf-cleaner/arghandling.c'',
                     ''-o'',
                     path_str (is_windows h) elf_cleaner] [] w)
             else w);
          cmd = [path_str (is_windows h) elf_cleaner, ''--api-level'', ''23'']
                @ concat (map (\<lambda>arch. map (\<lambda>bin. path_str (is_windows h) [''native'', ''out'', arch, bin])
                                         [''magisk'', ''magiskpolicy'']) archs)
      in snd (execv h cmd [] w1))\<close>

subsection \<open>\<open>run_ndk_build\<close> (lines 232 to 243)\<close>

definition relocate_arch :: "string \<Rightarrow> world \<Rightarrow> exn + world" where
  "relocate_arch arch w =
     fold (\<lambda>tgt r. then_do r (mv (Rel [''native'', ''libs'', arch, tgt])
                                   (Rel [''native'', ''out'', arch, tgt])))
          (support_targets @ [''libinit-ld.so'']) (Inr w)"

definition run_ndk_build :: "host \<Rightarrow> string \<Rightarrow> world \<Rightarrow> exn + world" where
  "run_ndk_build h flags w =
     then_do (chdir [''native''] w)
       (\<lambda>w1. (let flags1 = ''NDK_PROJECT_PATH=. NDK_APPLICATION_MK=src/Application.mk '' @ flags;
                   proc = system h (path_str (is_windows h) (ndk_build h) @ '' '' @ flags1
                                      @ '' -j'' @ str_nat (cpu_count h)) w1
               in if fst proc \<noteq> 0 then error ''Build binary failed!''
                  else then_do (chdir [''..''] (snd proc))
                         (\<lambda>w2. fold (\<lambda>arch r. then_do r (relocate_arch arch)) archs (Inr w2))))"

subsection \<open>\<open>run_cargo\<close> and \<open>run_cargo_build\<close> (lines 246 to 294)\<close>

definition run_cargo :: "host \<Rightarrow> string list \<Rightarrow> string \<Rightarrow> world \<Rightarrow> int \<times> world" where
  "run_cargo h cmds triple w =
     execv h (path_str (is_windows h) (cargo h) # cmds)
       [(''PATH'', path_str (is_windows h) (rust_bin h)
                    @ (if is_windows h then '';'' else '':'') @ environ_PATH h),
        (''CARGO_BUILD_RUSTC'', path_str (is_windows h) (rust_bin h @ [''rustc'' @ EXE_EXT h])),
        (''RUSTFLAGS'', ''-Clinker-plugin-lto -Zthreads='' @ str_nat (min 8 (cpu_count h)))]
       w"

text \<open>
  The inner loop of line 283: one \<open>cargo build\<close> per target, in the order given, stopping
  at a failure.
\<close>

fun cargo_targets :: "host \<Rightarrow> string list \<Rightarrow> string \<Rightarrow> string list \<Rightarrow> world \<Rightarrow> exn + world" where
  "cargo_targets h cmds triple [] w = Inr w"
| "cargo_targets h cmds triple (tgt # tgts) w =
     (let proc = run_cargo h (cmds[2 := tgt]) triple w
      in if fst proc \<noteq> 0 then error ''Build binary failed!''
         else cargo_targets h cmds triple tgts (snd proc))"

definition cargo_arch ::
  "host \<Rightarrow> string list \<Rightarrow> string \<Rightarrow> string list \<Rightarrow> string \<times> string \<Rightarrow> world \<Rightarrow> exn + world"
where
  "cargo_arch h cmds rust_out targets at w =
     (let arch = fst at; triple = snd at;
          rust_triple = (if startswith triple ''armv7'' then ''thumbv7neon-linux-androideabi''
                         else triple);
          cmds1 = cmds[length cmds - 1 := rust_triple]
      in then_do (cargo_targets h cmds1 triple targets w)
           (\<lambda>w1. then_do (mkdir (fs w1) (locate w1 (Rel [''..'', ''out'', arch])))
              (\<lambda>t. fold (\<lambda>tgt r. then_do r
                            (mv (Rel [''target'', rust_triple, rust_out, ''lib'' @ tgt @ ''.a''])
                                (Rel [''..'', ''out'', arch, ''lib'' @ tgt @ ''-rs.a''])))
                      targets (Inr (w1\<lparr>fs := t\<rparr>)))))"

text \<open>
  The set \<open>targets\<close> of lines 258 to 260, as the list of its members. Both loops over it
  (lines 283 and 291) take the members in the iteration order of the set.
\<close>

definition cargo_target_set :: "string list \<Rightarrow> string list" where
  "cargo_target_set tgt =
     (let targets = py_inter (py_set tgt) (py_set rust_targets)
      in if ''resetprop'' \<in> set tgt then py_add targets ''magisk'' else targets)"

definition run_cargo_build :: "host \<Rightarrow> args \<Rightarrow> world \<Rightarrow> exn + world" where
  "run_cargo_build h a w =
     then_do (mkdir (fs w) (locate w (Rel [''..'', ''out''])))
       (\<lambda>t. case target a of
               None \<Rightarrow> Inl AttributeError
             | Some tgt \<Rightarrow>
                 (let w1 = w\<lparr>fs := t\<rparr>;
                      targets = cargo_target_set tgt
                  in if length targets = 0 then Inr w1
                     else
                       (let cmds = [''build'', ''-p'', []]
                                   @ (if release a then [''-r''] else [])
                                   @ (if \<not> verbose a then [''-q''] else [])
                                   @ [''--target'', []];
                            rust_out = (if release a then ''release'' else ''debug'')
                        in fold (\<lambda>at r. then_do r
                                   (cargo_arch h cmds rust_out (py_iter h targets) at))
                             (zip archs triples) (Inr w1))))"

subsection \<open>\<open>build_binary\<close> (lines 355 to 421)\<close>

text \<open>
  The check of the installed NDK: any exception inside the \<open>try\<close> (a marker that cannot
  be read, a configuration without \<open>ondkVersion\<close>, a failed assertion) ends in \<open>error\<close>.
\<close>

definition ndk_verified :: "host \<Rightarrow> config \<Rightarrow> bool" where
  "ndk_verified h cfg =
     (case ondk_version_file h of
        None \<Rightarrow> False
      | Some ondk_ver \<Rightarrow>
          (case ondkVersion cfg of
             None \<Rightarrow> False
           | Some v \<Rightarrow> strip ondk_ver = v))"

definition first_pass_flag :: "string list \<Rightarrow> string" where
  "first_pass_flag tgt =
     (if ''magisk'' \<in> set tgt then '' B_MAGISK=1'' else [])
     @ (if ''magiskpolicy'' \<in> set tgt then '' B_POLICY=1'' else [])
     @ (if ''magiskinit'' \<in> set tgt then '' B_PRELOAD=1'' else [])
     @ (if ''resetprop'' \<in> set tgt then '' B_PROP=1'' else [])"

definition clean_wanted :: "string list \<Rightarrow> bool" where
  "clean_wanted tgt = (''magisk'' \<in> set tgt \<or> ''magiskpolicy'' \<in> set tgt)"

definition second_pass_flag :: "string list \<Rightarrow> string" where
  "second_pass_flag tgt =
     (if ''magiskinit'' \<in> set tgt then '' B_INIT=1'' else [])
     @ (if ''magiskboot'' \<in> set tgt then '' B_BOOT=1'' else [])"

definition build_selected :: "host \<Rightarrow> config \<Rightarrow> args \<Rightarrow> string list \<Rightarrow> world \<Rightarrow> exn + world" where
  "build_selected h cfg a tgt w =
     (let w1 = header (''* Building binaries: '' @ join '' '' tgt) w
      in then_do (chdir [''native'', ''src''] w1)
       (\<lambda>w2. then_do (run_cargo_build h a w2)
       (\<lambda>w3. then_do (chdir [''..'', ''..''] w3)
       (\<lambda>w3'. then_do (dump_flag_header h cfg a w3')
       (\<lambda>w4. then_do (if first_pass_flag tgt \<noteq> [] then run_ndk_build h (first_pass_flag tgt) w4
                       else Inr w4)
       (\<lambda>w5. then_do (if ''magiskinit'' \<in> set tgt then dump_bin_header h w5 else Inr w5)
       (\<lambda>w6. then_do (if second_pass_flag tgt \<noteq> []
                       then run_ndk_build h (second_pass_flag tgt @ '' B_CRT0=1'') w6
                       else Inr w6)
       (\<lambda>w7. (let w8 = (if clean_wanted tgt then clean_elf h w7 else w7)
               in if ''busybox'' \<in> set tgt then run_ndk_build h ''B_BB=1'' w8
                  else Inr w8)))))))))"

text \<open>
  After the selection \<open>args.target\<close> is the list of the default targets when nothing was
  requested, and a set otherwise; \<open>build_selected\<close> is the rest of \<open>build_binary\<close> for the
  resolved targets, given in the order in which they are iterated.
\<close>

definition build_binary :: "host \<Rightarrow> config \<Rightarrow> args \<Rightarrow> world \<Rightarrow> exn + world" where
  \<open>build_binary h cfg a w =
     (if \<not> ndk_verified h cfg
      then error ''Unmatched NDK. Please install/upgrade NDK with "build.py ndk"''
      else
        (let requested = (case target a of None \<Rightarrow> [] | Some t \<Rightarrow> t)
         in case select_targets requested of
              None \<Rightarrow> Inr w
            | Some t \<Rightarrow>
                (let tgt = (if requested \<noteq> [] then py_iter h t else t)
                 in build_selected h cfg (a\<lparr>target := Some tgt\<rparr>) tgt w)))\<close>

subsection \<open>\<open>find_jdk\<close> and \<open>cleanup\<close> (lines 424 to 453 and 498 to 526)\<close>

text \<open>
  \<open>find_jdk\<close> returns the environment for Gradle when \<open>javac -version\<close> exits with 0, and
  ends in \<open>error\<close> when it does not or cannot be started.
\<close>

definition find_jdk :: "host \<Rightarrow> exn + (string \<times> string) list" where
  "find_jdk h =
     (let no_jdk = (case javac_returncode h of None \<Rightarrow> True | Some rc \<Rightarrow> rc \<noteq> 0)
      in if no_jdk
         then error (''Please set Android Studio's path to environment variable ANDROID_STUDIO,\<newline>''
                     @ ''or install JDK 17 and make sure 'javac' is available in PATH'')
         else Inr (jdk_env h))"

text \<open>
  \<open>glob.glob("native/**/*-rs.*pp", recursive=True)\<close>: the entries, at any depth below
  \<open>native\<close>, whose name has the shape \<open>*-rs.*pp\<close>; names that begin with a dot are neither
  matched nor entered.
\<close>

definition rs_match :: "string \<Rightarrow> bool" where
  "rs_match name =
     (\<not> startswith name ''.'' \<and>
      list_ex (\<lambda>s. prefix ''-rs.'' s \<and> suffix ''pp'' (drop 4 s)) (suffixes name))"

fun glob_walk :: "path \<Rightarrow> node \<Rightarrow> path list"
  and glob_subdirs :: "path \<Rightarrow> (string \<times> node) list \<Rightarrow> path list"
where
  "glob_walk p (File ro c) = []"
| "glob_walk p (Dir es) =
     map (\<lambda>e. p @ [fst e]) (filter (\<lambda>e. rs_match (fst e)) es) @ glob_subdirs p es"
| "glob_subdirs p [] = []"
| "glob_subdirs p (e # es) =
     (if startswith (fst e) ''.'' then [] else glob_walk (p @ [fst e]) (snd e))
     @ glob_subdirs p es"

definition glob_rs :: "world \<Rightarrow> path list" where
  "glob_rs w =
     (case lookup (fs w) (locate w (Rel [''native''])) of
        None \<Rightarrow> []
      | Some n \<Rightarrow> glob_walk [''native''] n)"

definition clean_cpp :: "host \<Rightarrow> world \<Rightarrow> exn + world" where
  "clean_cpp h w =
     then_do (rm_rf h (Rel [''native'', ''libs'']) (header ''* Cleaning C++'' w))
       (\<lambda>w1. then_do (rm_rf h (Rel [''native'', ''obj'']) w1)
       (\<lambda>w2. rm_rf h (Rel [''native'', ''out'']) w2))"

definition clean_rust :: "host \<Rightarrow> world \<Rightarrow> exn + world" where
  "clean_rust h w =
     then_do (rm_rf h (Rel [''native'', ''src'', ''target'']) (header ''* Cleaning Rust'' w))
       (\<lambda>w1. then_do (rm h (Rel [''native'', ''src'', ''boot'', ''proto'', ''mod.rs'']) w1)
       (\<lambda>w2. then_do (rm h (Rel [''native'', ''src'', ''boot'', ''proto'', ''update_metadata.rs'']) w2)
       (\<lambda>w3. fold (\<lambda>rs_gen r. then_do r (rm h (Rel rs_gen))) (glob_rs w3) (Inr w3))))"

definition clean_java :: "host \<Rightarrow> world \<Rightarrow> exn + world" where
  "clean_java h w =
     (let w0 = header ''* Cleaning java'' w
      in then_do (find_jdk h)
           (\<lambda>env. (let w1 = snd (execv h [gradlew h, ''app:clean'', ''app:shared:clean'', ''stub:clean'']
                                    env w0)
                    in then_do (rm_rf h (Rel [''app'', ''src'', ''debug'']) w1)
                         (\<lambda>w2. rm_rf h (Rel [''app'', ''src'', ''release'']) w2))))"

definition cleanup :: "host \<Rightarrow> string list \<Rightarrow> world \<Rightarrow> exn + world" where
  "cleanup h requested w =
     (let tgt = cleanup_targets requested
      in then_do (if ''cpp'' \<in> set tgt then clean_cpp h w else Inr w)
       (\<lambda>w1. then_do (if ''rust'' \<in> set tgt then clean_rust h w1 else Inr w1)
       (\<lambda>w2. if ''java'' \<in> set tgt then clean_java h w2 else Inr w2)))"

subsection \<open>Resolved cleanup scopes\<close>






subsection \<open>Facts about the file system\<close>

lemma lookup_put_same: "put t p n = Some t' \<Longrightarrow> lookup t' p = Some n"
proof (induction t p n arbitrary: t' rule: put.induct)
  case (4 es x y ys new)
  then show ?case by (auto split: option.splits simp: update_conv')
qed (auto simp: update_conv')

lemma lookup_put_other:
  "put t p n = Some t' \<Longrightarrow> \<not> prefix p q \<Longrightarrow> \<not> prefix q p \<Longrightarrow> lookup t' q = lookup t q"
proof (induction t p n arbitrary: t' q rule: put.induct)
  case (1 n new)
  then show ?case by simp
next
  case (2 ro c x xs new)
  then show ?case by simp
next
  case (3 es x new)
  then show ?case by (cases q) (auto simp: update_conv')
next
  case (4 es x y ys new)
  then show ?case by (cases q) (auto split: option.splits simp: update_conv')
qed

lemma is_dir_Cons:
  "is_dir (Dir es) (x # r) = (case map_of es x of None \<Rightarrow> False | Some c \<Rightarrow> is_dir c r)"
  by (simp add: is_dir_def split: option.splits)

lemma is_dir_File: "is_dir (File ro c) p = False"
  by (cases p) (simp_all add: is_dir_def)

lemma is_dir_Nil: "is_dir (Dir es) [] = True"
  by (simp add: is_dir_def)

lemma put_Some_iff: "put t p n \<noteq> None \<longleftrightarrow> p = [] \<or> is_dir t (butlast p)"
proof (induction t p n rule: put.induct)
  case (1 n new)
  then show ?case by simp
next
  case (2 ro c x xs new)
  then show ?case by (simp add: is_dir_File)
next
  case (3 es x new)
  then show ?case by (simp add: is_dir_Nil)
next
  case (4 es x y ys new)
  show ?case
  proof (cases "map_of es x")
    case None
    then show ?thesis by (simp add: is_dir_Cons)
  next
    case (Some c)
    with 4 [OF Some] show ?thesis by (auto simp: is_dir_Cons split: option.splits)
  qed
qed


lemma lookup_del_other:
  "\<not> prefix p q \<Longrightarrow> \<not> prefix q p \<Longrightarrow> lookup (del t p) q = lookup t q"
proof (induction t p arbitrary: q rule: del.induct)
  case (3 es x)
  then show ?case by (cases q) (auto simp: delete_conv')
next
  case (4 es x y ys)
  then show ?case by (cases q) (auto split: option.splits simp: update_conv')
qed auto


lemma lookup_parent_is_dir: "lookup t p = Some n \<Longrightarrow> p \<noteq> [] \<Longrightarrow> is_dir t (butlast p)"
proof (induction t p arbitrary: n rule: lookup.induct)
  case (3 es x xs)
  then show ?case
    by (cases xs) (auto simp: is_dir_Cons is_dir_Nil split: option.splits)
qed auto

lemma lookup_prefix_is_dir:
  "lookup t (p @ q) = Some n \<Longrightarrow> q \<noteq> [] \<Longrightarrow> is_dir t p"
proof (induction t p arbitrary: n rule: lookup.induct)
  case (1 n')
  then show ?case by (cases n'; cases q) (auto simp: is_dir_def)
next
  case (2 ro c x xs)
  then show ?case by simp
next
  case (3 es x xs)
  then show ?case by (auto simp: is_dir_Cons split: option.splits)
qed

lemma is_dir_prefix: "is_dir t (p @ q) \<Longrightarrow> is_dir t p"
proof (cases "q = []")
  case True
  then show "is_dir t (p @ q) \<Longrightarrow> is_dir t p" by simp
next
  case False
  assume "is_dir t (p @ q)"
  then obtain es where "lookup t (p @ q) = Some (Dir es)"
    by (auto simp: is_dir_def split: option.splits node.splits)
  with False show "is_dir t p" by (rule lookup_prefix_is_dir [rotated])
qed

definition writable :: "node \<Rightarrow> path \<Rightarrow> bool" where
  "writable t p =
     (case lookup t p of
        None \<Rightarrow> p \<noteq> [] \<and> is_dir t (butlast p)
      | Some (File ro c) \<Rightarrow> \<not> ro
      | Some (Dir es) \<Rightarrow> False)"

lemma write_file_writable:
  assumes "writable t p"
  shows "\<exists>t'. write_file t p text = Inr t' \<and> lookup t' p = Some (File False text)"
proof -
  from assms have pd: "p = [] \<or> is_dir t (butlast p)"
    by (auto simp: writable_def split: option.splits node.splits dest: lookup_parent_is_dir)
  then obtain t' where t': "put t p (File False text) = Some t'"
    using put_Some_iff [of t p "File False text"] by auto
  then have "lookup t' p = Some (File False text)" by (rule lookup_put_same)
  with t' assms show ?thesis
    by (auto simp: write_file_def writable_def split: option.splits node.splits)
qed

lemma write_file_not_writable:
  assumes "\<not> writable t p"
  shows "\<exists>e. write_file t p text = Inl e"
proof -
  have "lookup t p = None \<Longrightarrow> put t p (File False text) = None"
    using assms put_Some_iff [of t p "File False text"]
    by (auto simp: writable_def)
  with assms show ?thesis
    by (auto simp: write_file_def writable_def split: option.splits node.splits)
qed

lemma write_file_other:
  "write_file t p text = Inr t' \<Longrightarrow> \<not> prefix p q \<Longrightarrow> \<not> prefix q p \<Longrightarrow> lookup t' q = lookup t q"
  by (auto simp: write_file_def split: option.splits node.splits if_splits
           dest: lookup_put_other)

lemma put_is_dir:
  "put t p n = Some t' \<Longrightarrow> is_dir t q \<Longrightarrow> \<not> prefix p q \<Longrightarrow> is_dir t' q"
proof (induction t p n arbitrary: t' q rule: put.induct)
  case (1 n new)
  then show ?case by simp
next
  case (2 ro c x xs new)
  then show ?case by simp
next
  case (3 es x new)
  then show ?case by (cases q) (auto simp: is_dir_Cons is_dir_Nil update_conv')
next
  case (4 es x y ys new)
  then show ?case
    by (cases q) (auto simp: is_dir_Cons is_dir_Nil update_conv' split: option.splits)
qed

lemma write_file_is_dir:
  assumes "write_file t p text = Inr t'" and "is_dir t q"
  shows "is_dir t' q"
proof -
  from assms(1) have put: "put t p (File False text) = Some t'" and nd: "\<not> is_dir t p"
    by (auto simp: write_file_def is_dir_def split: option.splits node.splits if_splits)
  have "\<not> prefix p q"
  proof
    assume "prefix p q"
    then obtain r where "q = p @ r" by (auto simp: prefix_def)
    with assms(2) have "is_dir t p" using is_dir_prefix by blast
    with nd show False by simp
  qed
  with put assms(2) show ?thesis by (rule put_is_dir)
qed

lemma lookup_append:
  "lookup t (p @ r) = (case lookup t p of None \<Rightarrow> None | Some n \<Rightarrow> lookup n r)"
proof (induction t p rule: lookup.induct)
  case (2 ro c x xs)
  then show ?case by simp
qed (auto split: option.splits)

lemma lookup_Dir_Nil: "lookup (Dir []) r = (if r = [] then Some (Dir []) else None)"
  by (cases r) simp_all

lemma mkdir_is_dir: "mkdir t p = Inr t' \<Longrightarrow> is_dir t' p"
  by (auto simp: mkdir_def is_dir_def split: option.splits node.splits dest: lookup_put_same)

lemma mkdir_noop: "is_dir t p \<Longrightarrow> mkdir t p = Inr t"
  by (auto simp: mkdir_def is_dir_def split: option.splits node.splits)

lemma mkdir_frame:
  assumes "mkdir t p = Inr t'" and "\<not> prefix q p"
  shows "lookup t' q = lookup t q"
proof (cases "is_dir t p")
  case True
  with assms show ?thesis by (simp add: mkdir_noop)
next
  case False
  with assms(1) have none: "lookup t p = None" and put: "put t p (Dir []) = Some t'"
    by (auto simp: mkdir_def is_dir_def split: option.splits node.splits)
  show ?thesis
  proof (cases "prefix p q")
    case True
    then obtain r where q: "q = p @ r" by (auto simp: prefix_def)
    with assms(2) have "r \<noteq> []" by auto
    moreover from put have "lookup t' p = Some (Dir [])" by (rule lookup_put_same)
    ultimately show ?thesis using none q by (simp add: lookup_append lookup_Dir_Nil)
  next
    case False
    with put assms(2) show ?thesis by (auto dest: lookup_put_other)
  qed
qed

lemma make_dirs_Nil: "make_dirs t [] = mkdir t []"
  by (simp add: make_dirs_def then_do_def)

lemma make_dirs_snoc:
  "make_dirs t (xs @ [x]) = then_do (make_dirs t xs) (\<lambda>t'. mkdir t' (xs @ [x]))"
  by (simp add: make_dirs_def)

lemma make_dirs_noop: "is_dir t p \<Longrightarrow> make_dirs t p = Inr t"
proof (induction p rule: rev_induct)
  case Nil
  then show ?case by (simp add: make_dirs_Nil mkdir_noop)
next
  case (snoc x xs)
  from snoc.prems have "is_dir t xs" by (rule is_dir_prefix)
  with snoc show ?case by (simp add: make_dirs_snoc then_do_def mkdir_noop)
qed

lemma make_dirs_is_dir: "make_dirs t p = Inr t' \<Longrightarrow> is_dir t' p"
proof (cases p rule: rev_cases)
  case Nil
  then show "make_dirs t p = Inr t' \<Longrightarrow> is_dir t' p"
    by (simp add: make_dirs_Nil mkdir_is_dir)
next
  case (snoc xs x)
  then show "make_dirs t p = Inr t' \<Longrightarrow> is_dir t' p"
    by (auto simp: make_dirs_snoc then_do_def mkdir_is_dir split: sum.splits)
qed

lemma make_dirs_frame:
  "make_dirs t p = Inr t' \<Longrightarrow> \<not> prefix q p \<Longrightarrow> lookup t' q = lookup t q"
proof (induction p arbitrary: t' rule: rev_induct)
  case Nil
  then show ?case by (simp add: make_dirs_Nil mkdir_frame)
next
  case (snoc x xs)
  from snoc.prems(1) obtain t1 where t1: "make_dirs t xs = Inr t1"
    and m: "mkdir t1 (xs @ [x]) = Inr t'"
    by (auto simp: make_dirs_snoc then_do_def split: sum.splits)
  from snoc.prems(2) have "\<not> prefix q xs" by (auto simp: prefix_def)
  with snoc.IH t1 have "lookup t1 q = lookup t q" by blast
  moreover from m snoc.prems(2) have "lookup t' q = lookup t1 q" by (rule mkdir_frame)
  ultimately show ?case by simp
qed

lemma is_dir_not_is_file: "is_dir t p \<Longrightarrow> \<not> is_file t p"
  by (auto simp: is_dir_def is_file_def split: option.splits node.splits)

lemma no_file_above_dir:
  assumes "is_dir t p"
  shows "\<not> list_ex (is_file t) (butlast (prefixes p))"
proof
  assume "list_ex (is_file t) (butlast (prefixes p))"
  then obtain q where q: "q \<in> set (butlast (prefixes p))" and f: "is_file t q"
    by (auto simp: list_ex_iff)
  from q have "prefix q p" by (auto dest: in_set_butlastD)
  then obtain r where "p = q @ r" by (auto simp: prefix_def)
  with assms have "is_dir t q" using is_dir_prefix by blast
  with f show False by (simp add: is_dir_not_is_file)
qed

lemma mkdir_parents_noop: "is_dir t p \<Longrightarrow> mkdir_parents t p = Inr t"
  by (simp add: mkdir_parents_def no_file_above_dir make_dirs_noop)

lemma mkdir_parents_is_dir: "mkdir_parents t p = Inr t' \<Longrightarrow> is_dir t' p"
  by (auto simp: mkdir_parents_def make_dirs_is_dir split: if_splits)

lemma mkdir_parents_frame:
  "mkdir_parents t p = Inr t' \<Longrightarrow> \<not> prefix q p \<Longrightarrow> lookup t' q = lookup t q"
  by (auto simp: mkdir_parents_def split: if_splits dest: make_dirs_frame)


subsection \<open>Facts about text files\<close>

lemma universal_newlines_Cons:
  "c \<noteq> CHR 0x0D \<Longrightarrow> universal_newlines (c # s) = c # universal_newlines s"
  by (cases s) simp_all

lemma universal_newlines_plain: "CHR 0x0D \<notin> set s \<Longrightarrow> universal_newlines s = s"
  by (induction s) (auto simp: universal_newlines_Cons)

lemma universal_newlines_out:
  assumes "CHR 0x0D \<notin> set s"
  shows "universal_newlines (newline_out win s) = s"
proof (cases win)
  case False
  with assms show ?thesis by (simp add: newline_out_def universal_newlines_plain)
next
  case True
  from assms
  have "universal_newlines
          (concat (map (\<lambda>c. if c = CHR 0x0A then [CHR 0x0D, CHR 0x0A] else [c]) s)) = s"
    by (induction s) (auto simp: universal_newlines_Cons)
  with True show ?thesis by (simp add: newline_out_def)
qed

text \<open>
  A text is stable when it reads back as itself after it was written: it has no carriage
  return, and the bytes written for it are decoded by the codec of the locale. A text of
  ASCII characters without carriage return is stable on every host.
\<close>

definition stable_text :: "host \<Rightarrow> string \<Rightarrow> bool" where
  "stable_text h text =
     (CHR 0x0D \<notin> set text \<and> decodable h (newline_out (is_windows h) text))"

definition plain_char :: "char \<Rightarrow> bool" where
  "plain_char c = ((of_char c :: nat) < 128 \<and> c \<noteq> CHR 0x0D)"

lemma plain_stable:
  assumes "list_all plain_char s"
  shows "stable_text h s"
proof -
  from assms have cr: "CHR 0x0D \<notin> set s"
    by (auto simp: list_all_iff plain_char_def)
  from assms have "list_all (\<lambda>c. (of_char c :: nat) < 128) (newline_out win s)" for win
    by (induction s) (auto simp: newline_out_def plain_char_def)
  then have "decodable h (newline_out (is_windows h) s)"
    by (simp add: decodable_def)
  with cr show ?thesis by (simp add: stable_text_def)
qed

lemma read_file_Inr_iff: "read_file t p = Inr src \<longleftrightarrow> (\<exists>ro. lookup t p = Some (File ro src))"
  by (auto simp: read_file_def split: option.splits node.splits)

lemma read_file_cong:
  "lookup t' p = lookup t p \<Longrightarrow> read_file t p = Inr src \<Longrightarrow> read_file t' p = Inr src"
  by (simp add: read_file_Inr_iff)

lemma read_text_Inr_iff:
  "read_text h t p = Inr text \<longleftrightarrow>
     (\<exists>ro b. lookup t p = Some (File ro b) \<and> decodable h b \<and> universal_newlines b = text)"
  by (auto simp: read_text_def read_file_def then_do_def split: option.splits node.splits)

lemma read_text_cong:
  "lookup t' p = lookup t p \<Longrightarrow> read_text h t p = Inr text \<Longrightarrow> read_text h t' p = Inr text"
  by (simp add: read_text_Inr_iff)

lemma read_text_exists: "read_text h t p = Inr text \<Longrightarrow> path_exists t p"
  by (auto simp: read_text_Inr_iff path_exists_def)

lemma write_file_result: "write_file t p text = Inr t' \<Longrightarrow> lookup t' p = Some (File False text)"
  by (auto simp: write_file_def split: option.splits node.splits if_splits dest: lookup_put_same)

lemma write_text_result:
  "write_text h t p text = Inr t' \<Longrightarrow>
     lookup t' p = Some (File False (newline_out (is_windows h) text))"
  by (simp add: write_text_def write_file_result)

lemma write_text_read_back:
  assumes "write_text h t p text = Inr t'" and "stable_text h text"
  shows "read_text h t' p = Inr text"
proof -
  from assms(1) have "lookup t' p = Some (File False (newline_out (is_windows h) text))"
    by (rule write_text_result)
  moreover from assms(2) have "decodable h (newline_out (is_windows h) text)"
    and "universal_newlines (newline_out (is_windows h) text) = text"
    by (simp_all add: stable_text_def universal_newlines_out)
  ultimately show ?thesis unfolding read_text_Inr_iff by blast
qed

subsection \<open>Facts about \<open>write_if_diff\<close> and the header generators\<close>

lemma write_if_diff_same:
  assumes "read_text h (fs w) (locate w f) = Inr text"
  shows "write_if_diff h f text w = Inr (log (WriteIfDiff (locate w f) text) w)"
  using assms read_text_exists [OF assms]
  by (simp add: write_if_diff_def Let_def then_do_def)

lemma write_if_diff_differs:
  assumes "writable (fs w) (locate w f)"
    and "path_exists (fs w) (locate w f) \<longrightarrow>
           (\<exists>orig. read_text h (fs w) (locate w f) = Inr orig \<and> orig \<noteq> text)"
  shows "\<exists>t'. write_text h (fs w) (locate w f) text = Inr t'
           \<and> lookup t' (locate w f) = Some (File False (newline_out (is_windows h) text))
           \<and> write_if_diff h f text w =
               Inr (w\<lparr>fs := t',
                      trace := trace w @ [WriteIfDiff (locate w f) text,
                                          FileWrite (locate w f) text]\<rparr>)"
proof -
  from assms(1) obtain t' where t': "write_text h (fs w) (locate w f) text = Inr t'"
    and l: "lookup t' (locate w f) = Some (File False (newline_out (is_windows h) text))"
    unfolding write_text_def using write_file_writable by blast
  have "write_if_diff h f text w =
          Inr (w\<lparr>fs := t', trace := trace w @ [WriteIfDiff (locate w f) text,
                                                FileWrite (locate w f) text]\<rparr>)"
    using assms(2) t'
    by (auto simp: write_if_diff_def Let_def then_do_def log_def)
  with t' l show ?thesis by blast
qed

lemma write_if_diff_unreadable:
  assumes "path_exists (fs w) (locate w f)" and "read_text h (fs w) (locate w f) = Inl e"
  shows "write_if_diff h f text w = Inl e"
  using assms by (simp add: write_if_diff_def Let_def then_do_def)

lemma write_if_diff_raises:
  assumes "\<not> writable (fs w) (locate w f)"
    and "read_text h (fs w) (locate w f) \<noteq> Inr text"
  shows "\<exists>e. write_if_diff h f text w = Inl e"
proof -
  from assms(1) obtain e where "write_text h (fs w) (locate w f) text = Inl e"
    unfolding write_text_def using write_file_not_writable by blast
  with assms(2) show ?thesis
    by (cases "read_text h (fs w) (locate w f)")
       (auto simp: write_if_diff_def Let_def then_do_def)
qed

lemma write_if_diff_result:
  assumes "write_if_diff h f text w = Inr w'"
  shows "(read_text h (fs w') (locate w f) = Inr text
            \<or> lookup (fs w') (locate w f) = Some (File False (newline_out (is_windows h) text)))
         \<and> cwd w' = cwd w
         \<and> (\<forall>q. is_dir (fs w) q \<longrightarrow> is_dir (fs w') q)
         \<and> (\<forall>q. \<not> prefix (locate w f) q \<and> \<not> prefix q (locate w f)
                \<longrightarrow> lookup (fs w') q = lookup (fs w) q)"
proof (cases "read_text h (fs w) (locate w f) = Inr text")
  case True
  from write_if_diff_same [OF this] assms have "w' = log (WriteIfDiff (locate w f) text) w"
    by simp
  with True show ?thesis by (simp add: log_def)
next
  case False
  with assms obtain t' where t': "write_text h (fs w) (locate w f) text = Inr t'"
    and w': "w' = log (FileWrite (locate w f) text)
                    ((log (WriteIfDiff (locate w f) text) w)\<lparr>fs := t'\<rparr>)"
    by (cases "read_text h (fs w) (locate w f)")
       (auto simp: write_if_diff_def Let_def then_do_def split: if_splits sum.splits)
  from t' have "lookup t' (locate w f) = Some (File False (newline_out (is_windows h) text))"
    by (rule write_text_result)
  moreover have "\<forall>q. is_dir (fs w) q \<longrightarrow> is_dir t' q"
    using t' write_file_is_dir unfolding write_text_def by blast
  moreover have "\<forall>q. \<not> prefix (locate w f) q \<and> \<not> prefix q (locate w f)
                  \<longrightarrow> lookup t' q = lookup (fs w) q"
    using t' write_file_other unfolding write_text_def by blast
  ultimately show ?thesis using w' by (auto simp: log_def)
qed

lemma write_if_diff_stable:
  assumes "write_if_diff h f text w = Inr w'" and "stable_text h text"
  shows "read_text h (fs w') (locate w f) = Inr text"
proof -
  from write_if_diff_result [OF assms(1)]
  have "read_text h (fs w') (locate w f) = Inr text
          \<or> lookup (fs w') (locate w f) = Some (File False (newline_out (is_windows h) text))"
    by blast
  moreover from assms(2) have "decodable h (newline_out (is_windows h) text)"
    and "universal_newlines (newline_out (is_windows h) text) = text"
    by (simp_all add: stable_text_def universal_newlines_out)
  ultimately show ?thesis unfolding read_text_Inr_iff by blast
qed

lemma world_fs_same: "w\<lparr>fs := fs w\<rparr> = w"
  by simp

lemma locate_Abs: "locate w (Abs p) = p"
  by (simp add: locate_def)

lemma dump_flag_header_again:
  assumes "dump_flag_header h cfg a w = Inr w1" and "stable_text h (flag_txt cfg a)"
  shows "dump_flag_header h cfg a w1 =
           Inr (log (WriteIfDiff (native_gen_path @ [''flags.h'']) (flag_txt cfg a)) w1)"
proof -
  from assms(1) obtain t where t: "mkdir_parents (fs w) native_gen_path = Inr t"
    and wr: "write_if_diff h (Abs (native_gen_path @ [''flags.h''])) (flag_txt cfg a)
               (w\<lparr>fs := t\<rparr>) = Inr w1"
    by (auto simp: dump_flag_header_def then_do_def split: sum.splits)
  from t have "is_dir t native_gen_path" by (rule mkdir_parents_is_dir)
  with write_if_diff_result [OF wr]
  have d: "is_dir (fs w1) native_gen_path"
    by (auto simp: locate_Abs)
  from write_if_diff_stable [OF wr assms(2)]
  have l: "read_text h (fs w1) (native_gen_path @ [''flags.h'']) = Inr (flag_txt cfg a)"
    by (simp add: locate_Abs)
  from d have "mkdir_parents (fs w1) native_gen_path = Inr (fs w1)" by (rule mkdir_parents_noop)
  moreover have "write_if_diff h (Abs (native_gen_path @ [''flags.h''])) (flag_txt cfg a) w1
        = Inr (log (WriteIfDiff (native_gen_path @ [''flags.h'']) (flag_txt cfg a)) w1)"
    using write_if_diff_same [of h w1 "Abs (native_gen_path @ [''flags.h''])" "flag_txt cfg a"] l
    by (simp add: locate_Abs)
  ultimately show ?thesis by (simp add: dump_flag_header_def then_do_def)
qed

definition is_write :: "event \<Rightarrow> bool" where
  "is_write e = (case e of FileWrite p text \<Rightarrow> True | _ \<Rightarrow> False)"

definition file_writes :: "event list \<Rightarrow> event list" where
  "file_writes tr = filter is_write tr"

text \<open>The text of a dump is made of ASCII characters without carriage return.\<close>

lemma digit_char_plain: "d < 16 \<Longrightarrow> plain_char (digit_char d)"
proof -
  assume "d < 16"
  then have "d = 0 \<or> d = 1 \<or> d = 2 \<or> d = 3 \<or> d = 4 \<or> d = 5 \<or> d = 6 \<or> d = 7
      \<or> d = 8 \<or> d = 9 \<or> d = 10 \<or> d = 11 \<or> d = 12 \<or> d = 13 \<or> d = 14 \<or> d = 15"
    by arith
  then show ?thesis
    by (auto simp: digit_char_def plain_char_def)
qed

lemma to_hex_plain: "list_all plain_char (to_hex n)"
proof (induction n rule: to_hex.induct)
  case (1 n)
  show ?case
  proof (cases "n < 16")
    case True
    then have "to_hex n = [digit_char n]" by (subst to_hex.simps) simp
    with digit_char_plain [OF True] show ?thesis by simp
  next
    case False
    then have e: "to_hex n = to_hex (n div 16) @ [digit_char (n mod 16)]"
      by (subst to_hex.simps) simp
    have "n mod 16 < 16" by simp
    from digit_char_plain [OF this] 1 [OF False] show ?thesis
      unfolding e by simp
  qed
qed

lemma fmt_02X_plain: "list_all plain_char (fmt_02X n)"
proof -
  have "plain_char (CHR ''0'')" by (simp add: plain_char_def)
  then have r: "list_all plain_char (replicate k (CHR ''0''))" for k
    by (simp add: list_all_iff)
  show ?thesis
    unfolding fmt_02X_def Let_def list_all_append using r to_hex_plain by blast
qed

lemma dump_loop_plain:
  "list_all plain_char out_str \<Longrightarrow> list_all plain_char (dump_loop i bs out_str)"
proof (induction i bs out_str rule: dump_loop.induct)
  case (1 i out_str)
  then show ?case by simp
next
  case (2 i c cs out_str)
  show ?case
    unfolding dump_loop.simps
  proof (rule 2(1))
    show "list_all plain_char
            ((if i mod 16 = 0 then out_str @ ''\<newline>'' else out_str)
               @ ''0x'' @ fmt_02X (of_char c) @ '','')"
    proof -
      have "list_all plain_char ''\<newline>''" "list_all plain_char ''0x''" "list_all plain_char '',''"
        by (simp_all add: plain_char_def)
      with 2(2) fmt_02X_plain [of "of_char c"] show ?thesis
        by (simp only: list_all_append split: if_split) blast
    qed
  qed
qed

lemma binary_dump_plain:
  "list_all plain_char var_name \<Longrightarrow> list_all plain_char (binary_dump src var_name compressor)"
proof -
  assume v: "list_all plain_char var_name"
  have "list_all plain_char ''constexpr unsigned char ''" "list_all plain_char ''[] = {''"
    by (simp_all add: plain_char_def)
  with v have "list_all plain_char (''constexpr unsigned char '' @ var_name @ ''[] = {'')"
    by (simp only: list_all_append)
  then have "list_all plain_char
               (dump_loop 0 (compressor src) (''constexpr unsigned char '' @ var_name @ ''[] = {''))"
    by (rule dump_loop_plain)
  moreover have "list_all plain_char ''\<newline>};\<newline>''" by (simp add: plain_char_def)
  ultimately show ?thesis unfolding binary_dump_def by (simp only: list_all_append)
qed

lemma payload_text_stable: "stable_text h (binary_dump src ''init_ld_xz'' compressor)"
proof (rule plain_stable)
  have "list_all plain_char ''init_ld_xz''" by (simp add: plain_char_def)
  then show "list_all plain_char (binary_dump src ''init_ld_xz'' compressor)"
    by (rule binary_dump_plain)
qed

text \<open>
  The payload header of an architecture is current when its text is the dump of the
  compressed shared object that stands in the output tree.
\<close>

definition payload_current :: "host \<Rightarrow> node \<Rightarrow> string \<Rightarrow> bool" where
  "payload_current h t arch =
     (case read_file t [''native'', ''out'', arch, ''libinit-ld.so''] of
        Inl e \<Rightarrow> False
      | Inr src \<Rightarrow>
          read_text h t (native_gen_path @ [arch @ ''_binaries.h''])
            = Inr (binary_dump src ''init_ld_xz'' (xz h)))"

lemma dump_bin_header_arch_step:
  assumes "dump_bin_header_arch h arch w = Inr w'" and "cwd w = []" and "arch \<in> set archs"
  shows "payload_current h (fs w') arch \<and> cwd w' = []
         \<and> (\<forall>q. is_dir (fs w) q \<longrightarrow> is_dir (fs w') q)
         \<and> (\<forall>a\<in>set archs. a \<noteq> arch \<longrightarrow> payload_current h (fs w) a \<longrightarrow> payload_current h (fs w') a)"
proof -
  let ?src = "[''native'', ''out'', arch, ''libinit-ld.so'']"
  let ?hdr = "native_gen_path @ [arch @ ''_binaries.h'']"
  from assms(2,3) have loc: "locate w (Rel ?src) = ?src"
    by (auto simp: locate_def archs_def)
  from assms(1) loc obtain src where src: "read_file (fs w) ?src = Inr src"
    and wr: "write_if_diff h (Abs ?hdr) (binary_dump src ''init_ld_xz'' (xz h)) w = Inr w'"
    by (auto simp: dump_bin_header_arch_def then_do_def split: sum.splits)
  note r = write_if_diff_result [OF wr, unfolded locate_Abs]
  from write_if_diff_stable [OF wr payload_text_stable]
  have hdr: "read_text h (fs w') ?hdr = Inr (binary_dump src ''init_ld_xz'' (xz h))"
    by (simp add: locate_Abs)
  from r have frame: "\<And>q. \<not> prefix ?hdr q \<Longrightarrow> \<not> prefix q ?hdr \<Longrightarrow> lookup (fs w') q = lookup (fs w) q"
    by blast
  have "lookup (fs w') ?src = lookup (fs w) ?src"
    using assms(3) by (intro frame) (auto simp: native_gen_path_def archs_def)
  then have "read_file (fs w') ?src = Inr src" using src by (rule read_file_cong)
  with hdr have cur: "payload_current h (fs w') arch" by (simp add: payload_current_def)
  have others: "\<forall>a\<in>set archs. a \<noteq> arch \<longrightarrow> payload_current h (fs w) a \<longrightarrow> payload_current h (fs w') a"
  proof (intro ballI impI)
    fix a assume a: "a \<in> set archs" "a \<noteq> arch" "payload_current h (fs w) a"
    have 1: "lookup (fs w') [''native'', ''out'', a, ''libinit-ld.so'']
             = lookup (fs w) [''native'', ''out'', a, ''libinit-ld.so'']"
      using a(1) by (intro frame) (auto simp: native_gen_path_def archs_def)
    have 2: "lookup (fs w') (native_gen_path @ [a @ ''_binaries.h''])
             = lookup (fs w) (native_gen_path @ [a @ ''_binaries.h''])"
      using a(2) by (intro frame) (auto simp: native_gen_path_def)
    from a(3) obtain s0 where s0: "read_file (fs w) [''native'', ''out'', a, ''libinit-ld.so''] = Inr s0"
      and t0: "read_text h (fs w) (native_gen_path @ [a @ ''_binaries.h''])
                 = Inr (binary_dump s0 ''init_ld_xz'' (xz h))"
      by (auto simp: payload_current_def split: sum.splits)
    from 1 s0 have "read_file (fs w') [''native'', ''out'', a, ''libinit-ld.so''] = Inr s0"
      by (rule read_file_cong)
    moreover from 2 t0 have "read_text h (fs w') (native_gen_path @ [a @ ''_binaries.h''])
                 = Inr (binary_dump s0 ''init_ld_xz'' (xz h))"
      by (rule read_text_cong)
    ultimately show "payload_current h (fs w') a"
      by (simp add: payload_current_def)
  qed
  from r assms(2) cur others show ?thesis by simp
qed

lemma dump_bin_header_arch_noop:
  assumes "payload_current h (fs w) arch" and "cwd w = []" and "arch \<in> set archs"
  shows "\<exists>txt. dump_bin_header_arch h arch w
           = Inr (log (WriteIfDiff (native_gen_path @ [arch @ ''_binaries.h'']) txt) w)"
proof -
  let ?src = "[''native'', ''out'', arch, ''libinit-ld.so'']"
  let ?hdr = "native_gen_path @ [arch @ ''_binaries.h'']"
  from assms(2,3) have loc: "locate w (Rel ?src) = ?src"
    by (auto simp: locate_def archs_def)
  from assms(1) obtain src where src: "read_file (fs w) ?src = Inr src"
    and hdr: "read_text h (fs w) ?hdr = Inr (binary_dump src ''init_ld_xz'' (xz h))"
    by (auto simp: payload_current_def split: sum.splits)
  from hdr have "write_if_diff h (Abs ?hdr) (binary_dump src ''init_ld_xz'' (xz h)) w
      = Inr (log (WriteIfDiff ?hdr (binary_dump src ''init_ld_xz'' (xz h))) w)"
    using write_if_diff_same [of h w "Abs ?hdr"] by (simp add: locate_Abs)
  with src loc show ?thesis by (auto simp: dump_bin_header_arch_def then_do_def)
qed

lemma then_do_Inr: "then_do (Inr x) f = f x"
  by (simp add: then_do_def)

lemma then_do_Inl: "then_do (Inl e) f = Inl e"
  by (simp add: then_do_def)

lemma then_do_eq_Inr: "then_do m f = Inr y \<longleftrightarrow> (\<exists>x. m = Inr x \<and> f x = Inr y)"
  by (cases m) (simp_all add: then_do_def)

lemma fold_then_do_Inl: "fold (\<lambda>x r. then_do r (g x)) xs (Inl e) = Inl e"
  by (induction xs) (simp_all add: then_do_Inl)

lemma fold_then_do_Cons:
  "fold (\<lambda>x r. then_do r (g x)) (x # xs) (Inr w) =
     then_do (g x w) (\<lambda>w'. fold (\<lambda>x r. then_do r (g x)) xs (Inr w'))"
  by (cases "g x w") (simp_all add: then_do_Inr then_do_Inl fold_then_do_Inl)

lemma fold_then_do_invariant:
  assumes "fold (\<lambda>x r. then_do r (g x)) xs (Inr w) = Inr w'"
    and "I w"
    and "\<And>x u u'. x \<in> set xs \<Longrightarrow> I u \<Longrightarrow> g x u = Inr u' \<Longrightarrow> I u'"
  shows "I w'"
  using assms
proof (induction xs arbitrary: w)
  case Nil
  then show ?case by simp
next
  case (Cons x xs)
  from Cons.prems(1) obtain u where u: "g x w = Inr u"
    and rest: "fold (\<lambda>x r. then_do r (g x)) xs (Inr u) = Inr w'"
    unfolding fold_then_do_Cons then_do_eq_Inr by blast
  have "I u" by (rule Cons.prems(3) [OF _ Cons.prems(2) u]) simp
  show ?case
  proof (rule Cons.IH [OF rest \<open>I u\<close>])
    fix y v v' assume "y \<in> set xs" "I v" "g y v = Inr v'"
    then show "I v'" using Cons.prems(3) [of y v v'] by simp
  qed
qed

lemma dump_bin_header_fold_current:
  assumes "fold (\<lambda>arch r. then_do r (dump_bin_header_arch h arch)) xs (Inr w) = Inr w'"
    and "cwd w = []" and "set xs \<subseteq> set archs" and "distinct xs"
    and "D \<subseteq> set archs" and "D \<inter> set xs = {}"
    and "\<forall>a\<in>D. payload_current h (fs w) a"
  shows "(\<forall>a\<in>D \<union> set xs. payload_current h (fs w') a) \<and> cwd w' = []
         \<and> (\<forall>q. is_dir (fs w) q \<longrightarrow> is_dir (fs w') q)"
  using assms
proof (induction xs arbitrary: w D)
  case Nil
  then show ?case by simp
next
  case (Cons x xs)
  from Cons.prems(1) obtain u where u: "dump_bin_header_arch h x w = Inr u"
    and rest: "fold (\<lambda>arch r. then_do r (dump_bin_header_arch h arch)) xs (Inr u) = Inr w'"
    unfolding fold_then_do_Cons then_do_eq_Inr by blast
  from Cons.prems(3) have x: "x \<in> set archs" by simp
  note s = dump_bin_header_arch_step [OF u Cons.prems(2) x]
  from s have s1: "payload_current h (fs u) x" and s2: "cwd u = []"
    and s3: "\<And>q. is_dir (fs w) q \<Longrightarrow> is_dir (fs u) q"
    and s4: "\<And>a. a \<in> set archs \<Longrightarrow> a \<noteq> x \<Longrightarrow> payload_current h (fs w) a
              \<Longrightarrow> payload_current h (fs u) a"
    by blast+
  have D': "\<forall>a\<in>insert x D. payload_current h (fs u) a"
  proof
    fix a assume a: "a \<in> insert x D"
    show "payload_current h (fs u) a"
    proof (cases "a = x")
      case True
      with s1 show ?thesis by simp
    next
      case False
      with a Cons.prems(5,7) s4 show ?thesis by blast
    qed
  qed
  have i1: "set xs \<subseteq> set archs" and i2: "distinct xs" using Cons.prems(3,4) by simp_all
  have i3: "insert x D \<subseteq> set archs" using x Cons.prems(5) by simp
  have i4: "insert x D \<inter> set xs = {}" using Cons.prems(4,6) by auto
  from Cons.IH [OF rest s2 i1 i2 i3 i4 D']
  have r1: "\<forall>a\<in>insert x D \<union> set xs. payload_current h (fs w') a" and r2: "cwd w' = []"
    and r3: "\<And>q. is_dir (fs u) q \<Longrightarrow> is_dir (fs w') q"
    by blast+
  from r1 have "\<forall>a\<in>D \<union> set (x # xs). payload_current h (fs w') a" by simp
  with r2 r3 s3 show ?case by blast
qed

lemma dump_bin_header_fold_noop:
  assumes "\<forall>a\<in>set xs. payload_current h (fs w) a" and "cwd w = []" and "set xs \<subseteq> set archs"
  shows "\<exists>w'. fold (\<lambda>arch r. then_do r (dump_bin_header_arch h arch)) xs (Inr w) = Inr w'
           \<and> fs w' = fs w \<and> cwd w' = cwd w \<and> file_writes (trace w') = file_writes (trace w)"
  using assms
proof (induction xs arbitrary: w)
  case Nil
  then show ?case by simp
next
  case (Cons x xs)
  from Cons.prems obtain body where
    u: "dump_bin_header_arch h x w = Inr (log (WriteIfDiff (native_gen_path @ [x @ ''_binaries.h'']) body) w)"
    using dump_bin_header_arch_noop [of h w x] by auto
  let ?u = "log (WriteIfDiff (native_gen_path @ [x @ ''_binaries.h'']) body) w"
  have "\<exists>w'. fold (\<lambda>arch r. then_do r (dump_bin_header_arch h arch)) xs (Inr ?u) = Inr w'
           \<and> fs w' = fs ?u \<and> cwd w' = cwd ?u \<and> file_writes (trace w') = file_writes (trace ?u)"
  proof (rule Cons.IH)
    show "\<forall>a\<in>set xs. payload_current h (fs ?u) a" using Cons.prems(1) by (simp add: log_def)
    show "cwd ?u = []" using Cons.prems(2) by (simp add: log_def)
    show "set xs \<subseteq> set archs" using Cons.prems(3) by simp
  qed
  then obtain w' where
    w': "fold (\<lambda>arch r. then_do r (dump_bin_header_arch h arch)) xs (Inr ?u) = Inr w'"
    and e: "fs w' = fs ?u" "cwd w' = cwd ?u" "file_writes (trace w') = file_writes (trace ?u)"
    by blast
  have "fold (\<lambda>arch r. then_do r (dump_bin_header_arch h arch)) (x # xs) (Inr w) = Inr w'"
    unfolding fold_then_do_Cons u then_do_Inr by (rule w')
  moreover have "fs ?u = fs w" "cwd ?u = cwd w" "file_writes (trace ?u) = file_writes (trace w)"
    by (simp_all add: log_def file_writes_def is_write_def)
  ultimately show ?case using e by auto
qed

lemma dump_bin_header_again:
  assumes "dump_bin_header h w = Inr w1" and "cwd w = []"
  shows "\<exists>w2. dump_bin_header h w1 = Inr w2 \<and> fs w2 = fs w1
           \<and> file_writes (trace w2) = file_writes (trace w1)"
proof -
  from assms(1) obtain t where t: "mkdir_parents (fs w) native_gen_path = Inr t"
    and f: "fold (\<lambda>arch r. then_do r (dump_bin_header_arch h arch)) archs (Inr (w\<lparr>fs := t\<rparr>)) = Inr w1"
    by (auto simp: dump_bin_header_def then_do_eq_Inr)
  have "(\<forall>a\<in>{} \<union> set archs. payload_current h (fs w1) a) \<and> cwd w1 = []
         \<and> (\<forall>q. is_dir (fs (w\<lparr>fs := t\<rparr>)) q \<longrightarrow> is_dir (fs w1) q)"
  proof (rule dump_bin_header_fold_current [OF f])
    show "cwd (w\<lparr>fs := t\<rparr>) = []" using assms(2) by simp
    show "distinct archs" by (simp add: archs_def)
  qed simp_all
  moreover from t have "is_dir t native_gen_path" by (rule mkdir_parents_is_dir)
  ultimately have cur: "\<forall>a\<in>set archs. payload_current h (fs w1) a" and c: "cwd w1 = []"
    and d: "is_dir (fs w1) native_gen_path"
    by auto
  from d have m: "mkdir_parents (fs w1) native_gen_path = Inr (fs w1)" by (rule mkdir_parents_noop)
  from dump_bin_header_fold_noop [of archs h w1] cur c
  obtain w2 where "fold (\<lambda>arch r. then_do r (dump_bin_header_arch h arch)) archs (Inr w1) = Inr w2"
    and "fs w2 = fs w1" and "file_writes (trace w2) = file_writes (trace w1)"
    by auto
  then show ?thesis by (auto simp: dump_bin_header_def m then_do_Inr)
qed


subsection \<open>A host and worlds for the examples\<close>

text \<open>
  A host of the examples: not Windows, a locale that decodes ASCII only, and sets that
  iterate in the order in which the members were inserted.
\<close>

definition host0 :: host where
  "host0 = \<lparr>is_windows = False, project_root = ''/home/dev/Magisk'',
            sdk_path = [[], ''opt'', ''sdk''], cpu_count = 4,
            environ_PATH = ''/usr/bin'', ondk_version_file = Some ''r27.1\<newline>'',
            javac_returncode = Some 0, jdk_env = [],
            run_proc = (\<lambda>cmd dir t. (0, t)),
            lzma_compress = (\<lambda>preset check data. data),
            lzma_decompress = (\<lambda>data. Some data),
            locale_decodes = (\<lambda>b. False),
            hash_rank = (\<lambda>s x. 0)\<rparr>"

definition config0 :: config where
  "config0 = \<lparr>version = ''v1'', versionCode = 27000, ondkVersion = Some ''r27.1''\<rparr>"

definition args0 :: args where
  "args0 = \<lparr>target = Some [''magiskinit''], release = True, verbose = False\<rparr>"

definition gen_world :: "(string \<times> node) list \<Rightarrow> world" where
  "gen_world es =
     \<lparr>fs = Dir [(''native'', Dir [(''out'', Dir [(''generated'', Dir es)])])],
      cwd = [], trace = []\<rparr>"

definition succeeds :: "exn + 'a \<Rightarrow> bool" where
  "succeeds r = (case r of Inl e \<Rightarrow> False | Inr x \<Rightarrow> True)"

lemma succeedsE: "succeeds r \<Longrightarrow> \<exists>x. r = Inr x"
  by (cases r) (simp_all add: succeeds_def)

definition libs_world :: world where
  "libs_world =
     \<lparr>fs = Dir [(''native'', Dir [(''out'', Dir
              [(''armeabi-v7a'', Dir [(''libinit-ld.so'', File False ''AB'')]),
               (''x86'', Dir [(''libinit-ld.so'', File False ''CD'')]),
               (''arm64-v8a'', Dir [(''libinit-ld.so'', File False ''EF'')]),
               (''x86_64'', Dir [(''libinit-ld.so'', File False ''GH'')])])])],
      cwd = [], trace = []\<rparr>"

lemma decodable_host0: "decodable host0 b = list_all (\<lambda>c. (of_char c :: nat) < 128) b"
  by (simp add: decodable_def host0_def)

lemma host0_posix: "is_windows host0 = False"
  by (simp add: host0_def)

subsection \<open>Idempotent regeneration\<close>

text \<open>
  C4, as stated: the file is left alone when it is byte-identical to the new text, and
  is written otherwise. The comparison of line 311 is made on the text that \<open>read()\<close>
  returns in text mode, not on the bytes. A file that ends its line with CR LF differs
  from the text that ends it with LF, and is not written. A file that holds exactly the
  bytes of a text with a carriage return is read as another text, and is written. A file
  that the codec of the locale cannot decode is not written either: the call raises
  \<open>UnicodeDecodeError\<close>.
\<close>

theorem write_if_diff_compares_text:
  "lookup (fs (gen_world [(''flags.h'', File False [CHR ''a'', CHR 0x0D, CHR 0x0A])]))
      [''native'', ''out'', ''generated'', ''flags.h'']
     = Some (File False [CHR ''a'', CHR 0x0D, CHR 0x0A])
   \<and> [CHR ''a'', CHR 0x0D, CHR 0x0A] \<noteq> [CHR ''a'', CHR 0x0A]
   \<and> write_if_diff host0 (Abs [''native'', ''out'', ''generated'', ''flags.h''])
        [CHR ''a'', CHR 0x0A]
        (gen_world [(''flags.h'', File False [CHR ''a'', CHR 0x0D, CHR 0x0A])])
       = Inr (log (WriteIfDiff [''native'', ''out'', ''generated'', ''flags.h'']
                     [CHR ''a'', CHR 0x0A])
                (gen_world [(''flags.h'', File False [CHR ''a'', CHR 0x0D, CHR 0x0A])]))
   \<and> write_if_diff host0 (Abs [''native'', ''out'', ''generated'', ''flags.h''])
        [CHR ''a'', CHR 0x0D]
        (gen_world [(''flags.h'', File False [CHR ''a'', CHR 0x0D])])
       = Inr (gen_world [(''flags.h'', File False [CHR ''a'', CHR 0x0D])]
               \<lparr>trace := [WriteIfDiff [''native'', ''out'', ''generated'', ''flags.h'']
                            [CHR ''a'', CHR 0x0D],
                          FileWrite [''native'', ''out'', ''generated'', ''flags.h'']
                            [CHR ''a'', CHR 0x0D]]\<rparr>)
   \<and> write_if_diff host0 (Abs [''native'', ''out'', ''generated'', ''flags.h''])
        ''new'' (gen_world [(''flags.h'', File False [CHR 0xFF])])
       = Inl UnicodeDecodeError"
  by (simp add: write_if_diff_def gen_world_def locate_def path_exists_def read_text_def
        read_file_def then_do_def write_text_def write_file_def newline_out_def log_def
        decodable_host0 host0_posix Let_def)

text \<open>
  C4, amended. When the file exists and the text read from it (decoded, its line endings
  translated) is the new text, \<open>write_if_diff\<close> leaves the world as it is but for the
  record of the call: no write, the file untouched. When the file is missing, or the text
  read from it is another one, and the path can be written (a writable file, or a new
  entry of an existing directory), the new text is written with the line ending of the
  platform and the write is logged. The exception of a failing read propagates, and so
  does that of a write that is refused. A stable text is found again after a successful
  call, so that the next call writes nothing. Consequently a second \<open>dump_flag_header\<close>
  for a stable text, and a second \<open>dump_bin_header\<close> started in the project root, after a
  successful first one performs no write and leaves the tree as it is.
\<close>

theorem write_if_diff_idempotent:
  "(read_text h (fs w) (locate w f) = Inr text \<longrightarrow>
      write_if_diff h f text w = Inr (log (WriteIfDiff (locate w f) text) w))
   \<and> (writable (fs w) (locate w f)
        \<and> (path_exists (fs w) (locate w f) \<longrightarrow>
             (\<exists>orig. read_text h (fs w) (locate w f) = Inr orig \<and> orig \<noteq> text)) \<longrightarrow>
      (\<exists>t'. write_text h (fs w) (locate w f) text = Inr t'
          \<and> lookup t' (locate w f) = Some (File False (newline_out (is_windows h) text))
          \<and> write_if_diff h f text w =
              Inr (w\<lparr>fs := t', trace := trace w @ [WriteIfDiff (locate w f) text,
                                                     FileWrite (locate w f) text]\<rparr>)))
   \<and> (path_exists (fs w) (locate w f) \<and> read_text h (fs w) (locate w f) = Inl e \<longrightarrow>
      write_if_diff h f text w = Inl e)
   \<and> (\<not> writable (fs w) (locate w f) \<and> read_text h (fs w) (locate w f) \<noteq> Inr text \<longrightarrow>
      (\<exists>x. write_if_diff h f text w = Inl x))
   \<and> (write_if_diff h f text w = Inr w1 \<and> stable_text h text \<longrightarrow>
      read_text h (fs w1) (locate w f) = Inr text)
   \<and> (dump_flag_header h cfg a w = Inr w1 \<and> stable_text h (flag_txt cfg a) \<longrightarrow>
      dump_flag_header h cfg a w1 =
        Inr (log (WriteIfDiff (native_gen_path @ [''flags.h'']) (flag_txt cfg a)) w1))
   \<and> (dump_bin_header h w = Inr w1 \<and> cwd w = [] \<longrightarrow>
      (\<exists>w2. dump_bin_header h w1 = Inr w2 \<and> fs w2 = fs w1
          \<and> file_writes (trace w2) = file_writes (trace w1)))"
  using write_if_diff_same [of h w f "text"] write_if_diff_differs [of w f h "text"]
    write_if_diff_unreadable [of w f h e "text"]
    write_if_diff_raises [of w f h "text"] write_if_diff_stable [of h f "text" w w1]
    dump_flag_header_again [of h cfg a w w1]
    dump_bin_header_again [of h w w1]
  by blast

theorem write_if_diff_idempotent_witness:
  "read_text host0 (fs (gen_world [(''flags.h'', File False [CHR ''a'', CHR 0x0D, CHR 0x0A])]))
      (locate (gen_world [(''flags.h'', File False [CHR ''a'', CHR 0x0D, CHR 0x0A])])
         (Abs [''native'', ''out'', ''generated'', ''flags.h''])) = Inr [CHR ''a'', CHR 0x0A]
   \<and> write_if_diff host0 (Abs [''native'', ''out'', ''generated'', ''flags.h''])
        [CHR ''a'', CHR 0x0A]
        (gen_world [(''flags.h'', File False [CHR ''a'', CHR 0x0D, CHR 0x0A])])
       = Inr (log (WriteIfDiff [''native'', ''out'', ''generated'', ''flags.h'']
                     [CHR ''a'', CHR 0x0A])
                (gen_world [(''flags.h'', File False [CHR ''a'', CHR 0x0D, CHR 0x0A])]))
   \<and> writable (fs (gen_world [(''flags.h'', File False ''same'')]))
        [''native'', ''out'', ''generated'', ''flags.h'']
   \<and> write_if_diff host0 (Abs [''native'', ''out'', ''generated'', ''flags.h'']) ''new''
        (gen_world [(''flags.h'', File False ''same'')])
       = Inr (gen_world [(''flags.h'', File False ''new'')]
               \<lparr>trace := [WriteIfDiff [''native'', ''out'', ''generated'', ''flags.h''] ''new'',
                          FileWrite [''native'', ''out'', ''generated'', ''flags.h''] ''new'']\<rparr>)
   \<and> read_text host0 (fs (gen_world [(''flags.h'', File False [CHR 0xFF])]))
        [''native'', ''out'', ''generated'', ''flags.h''] = Inl UnicodeDecodeError
   \<and> write_if_diff host0 (Abs [''native'', ''out'', ''generated'', ''flags.h'']) ''new''
        (gen_world [(''flags.h'', File False [CHR 0xFF])]) = Inl UnicodeDecodeError
   \<and> \<not> writable (fs (gen_world [(''flags.h'', File True ''same'')]))
        [''native'', ''out'', ''generated'', ''flags.h'']
   \<and> write_if_diff host0 (Abs [''native'', ''out'', ''generated'', ''flags.h'']) ''new''
        (gen_world [(''flags.h'', File True ''same'')]) = Inl PermissionError
   \<and> stable_text host0 ''new''
   \<and> (\<exists>w1. write_if_diff host0 (Abs [''native'', ''out'', ''generated'', ''flags.h'']) ''new''
               (gen_world []) = Inr w1
          \<and> read_text host0 (fs w1) [''native'', ''out'', ''generated'', ''flags.h'']
               = Inr ''new'')
   \<and> stable_text host0 (flag_txt config0 args0)
   \<and> (\<exists>w1. dump_flag_header host0 config0 args0 (gen_world []) = Inr w1
          \<and> dump_flag_header host0 config0 args0 w1 =
              Inr (log (WriteIfDiff (native_gen_path @ [''flags.h'']) (flag_txt config0 args0)) w1))
   \<and> (\<exists>w1 w2. dump_bin_header host0 libs_world = Inr w1 \<and> cwd libs_world = []
          \<and> dump_bin_header host0 w1 = Inr w2 \<and> fs w2 = fs w1
          \<and> file_writes (trace w2) = file_writes (trace w1))"
proof -
  let ?f = "Abs [''native'', ''out'', ''generated'', ''flags.h'']"
  let ?p = "[''native'', ''out'', ''generated'', ''flags.h'']"
  let ?c = "gen_world [(''flags.h'', File False [CHR ''a'', CHR 0x0D, CHR 0x0A])]"
  let ?w = "gen_world [(''flags.h'', File False ''same'')]"
  let ?u = "gen_world [(''flags.h'', File False [CHR 0xFF])]"
  let ?r = "gen_world [(''flags.h'', File True ''same'')]"
  have loc: "\<And>w. locate w ?f = ?p" by (simp add: locate_def)
  have h1: "read_text host0 (fs ?c) (locate ?c ?f) = Inr [CHR ''a'', CHR 0x0A]"
    by (simp add: gen_world_def locate_def read_text_def read_file_def then_do_def
          decodable_host0)
  from write_if_diff_idempotent [of host0 ?c ?f "[CHR ''a'', CHR 0x0A]"] h1
  have c1: "write_if_diff host0 ?f [CHR ''a'', CHR 0x0A] ?c
              = Inr (log (WriteIfDiff ?p [CHR ''a'', CHR 0x0A]) ?c)"
    unfolding loc by blast
  have h2: "writable (fs ?w) ?p"
    "path_exists (fs ?w) ?p \<longrightarrow> (\<exists>orig. read_text host0 (fs ?w) ?p = Inr orig \<and> orig \<noteq> ''new'')"
    by (simp_all add: gen_world_def writable_def read_text_def read_file_def then_do_def
          decodable_host0)
  from write_if_diff_idempotent [of host0 ?w ?f "''new''"] h2
  obtain t' where "write_text host0 (fs ?w) ?p ''new'' = Inr t'"
    and "write_if_diff host0 ?f ''new'' ?w =
           Inr (?w\<lparr>fs := t', trace := trace ?w @ [WriteIfDiff ?p ''new'', FileWrite ?p ''new'']\<rparr>)"
    unfolding loc by blast
  then have c2: "write_if_diff host0 ?f ''new'' ?w =
       Inr (gen_world [(''flags.h'', File False ''new'')]
               \<lparr>trace := [WriteIfDiff ?p ''new'', FileWrite ?p ''new'']\<rparr>)"
    by (simp add: gen_world_def write_text_def write_file_def newline_out_def host0_posix)
  have h3: "path_exists (fs ?u) ?p" "read_text host0 (fs ?u) ?p = Inl UnicodeDecodeError"
    by (simp_all add: gen_world_def path_exists_def read_text_def read_file_def then_do_def
          decodable_host0)
  from write_if_diff_idempotent [of host0 ?u ?f "''new''" UnicodeDecodeError] h3
  have c3: "write_if_diff host0 ?f ''new'' ?u = Inl UnicodeDecodeError"
    unfolding loc by blast
  have h4: "\<not> writable (fs ?r) ?p" "read_text host0 (fs ?r) ?p \<noteq> Inr ''new''"
    by (simp_all add: gen_world_def writable_def read_text_def read_file_def then_do_def
          decodable_host0)
  from write_if_diff_idempotent [of host0 ?r ?f "''new''"] h4
  obtain x where "write_if_diff host0 ?f ''new'' ?r = Inl x"
    unfolding loc by blast
  then have c4: "write_if_diff host0 ?f ''new'' ?r = Inl PermissionError"
    by (simp add: write_if_diff_def gen_world_def locate_def path_exists_def read_text_def
          read_file_def then_do_def write_text_def write_file_def log_def decodable_host0)
  have s5: "stable_text host0 ''new''"
    by (simp add: stable_text_def decodable_host0 newline_out_def host0_posix)
  have "succeeds (write_if_diff host0 ?f ''new'' (gen_world []))"
    by (simp add: succeeds_def write_if_diff_def gen_world_def locate_def path_exists_def
          then_do_def write_text_def write_file_def log_def newline_out_def host0_posix
          Let_def)
  then obtain u1 where h5: "write_if_diff host0 ?f ''new'' (gen_world []) = Inr u1"
    using succeedsE by blast
  from write_if_diff_idempotent [of host0 "gen_world []" ?f "''new''" _ u1] h5 s5
  have c5: "read_text host0 (fs u1) ?p = Inr ''new''"
    unfolding loc by blast
  have s6: "stable_text host0 (flag_txt config0 args0)"
    by (simp add: stable_text_def decodable_host0 newline_out_def host0_posix flag_txt_def
          flag_template_def config0_def args0_def str_int_def str_nat.simps digit_char_def)
  have "succeeds (dump_flag_header host0 config0 args0 (gen_world []))"
    by (simp add: succeeds_def dump_flag_header_def gen_world_def mkdir_parents_def
          make_dirs_def is_file_def
          native_gen_path_def mkdir_def then_do_def write_if_diff_def locate_def Let_def
          path_exists_def write_text_def write_file_def log_def)
  then obtain w1 where h6: "dump_flag_header host0 config0 args0 (gen_world []) = Inr w1"
    using succeedsE by blast
  from write_if_diff_idempotent [of host0 "gen_world []" _ _ _ w1 config0 args0] h6 s6
  have c6: "dump_flag_header host0 config0 args0 w1 =
              Inr (log (WriteIfDiff (native_gen_path @ [''flags.h'']) (flag_txt config0 args0)) w1)"
    by blast
  have "succeeds (dump_bin_header host0 libs_world)"
    by (simp add: succeeds_def dump_bin_header_def dump_bin_header_arch_def libs_world_def
          archs_def mkdir_parents_def make_dirs_def is_file_def
          read_file_def native_gen_path_def mkdir_def then_do_def
          write_if_diff_def locate_def Let_def path_exists_def write_text_def write_file_def
          log_def)
  then obtain v1 where h7: "dump_bin_header host0 libs_world = Inr v1"
    using succeedsE by blast
  have h7': "cwd libs_world = []" by (simp add: libs_world_def)
  from write_if_diff_idempotent [of host0 libs_world _ _ _ v1] h7 h7'
  obtain v2 where c7: "dump_bin_header host0 v1 = Inr v2" "fs v2 = fs v1"
     "file_writes (trace v2) = file_writes (trace v1)"
    by blast
  from h5 c5 have p5: "\<exists>w1. write_if_diff host0 ?f ''new'' (gen_world []) = Inr w1
          \<and> read_text host0 (fs w1) ?p = Inr ''new''"
    by blast
  from h6 c6 have p6: "\<exists>w1. dump_flag_header host0 config0 args0 (gen_world []) = Inr w1
          \<and> dump_flag_header host0 config0 args0 w1 =
              Inr (log (WriteIfDiff (native_gen_path @ [''flags.h'']) (flag_txt config0 args0)) w1)"
    by blast
  from h7 h7' c7 have p7: "\<exists>w1 w2. dump_bin_header host0 libs_world = Inr w1 \<and> cwd libs_world = []
          \<and> dump_bin_header host0 w1 = Inr w2 \<and> fs w2 = fs w1
          \<and> file_writes (trace w2) = file_writes (trace w1)"
    by blast
  from h1 c1 h2(1) c2 h3(2) c3 h4(1) c4 s5 p5 s6 p6 p7 show ?thesis unfolding loc
    by (iprover intro: conjI)
qed


subsection \<open>Target selection\<close>

lemma select_targets_Nil: "select_targets [] = Some default_targets"
  by (simp add: select_targets_def)

lemma select_targets_nonempty:
  assumes "requested \<noteq> []"
  shows "select_targets requested =
           (if set requested \<inter> set support_targets = {} then None
            else Some (py_inter (py_set requested) (py_set support_targets)))"
proof -
  have "set (py_inter (py_set requested) (py_set support_targets))
          = set requested \<inter> set support_targets"
    by (simp add: set_py_inter set_py_set)
  then have "py_inter (py_set requested) (py_set support_targets) = []
          \<longleftrightarrow> set requested \<inter> set support_targets = {}"
    by (metis set_empty)
  with assms show ?thesis by (simp add: select_targets_def Let_def)
qed

lemma select_targets_subset:
  assumes "select_targets requested = Some t"
  shows "set t \<subseteq> set support_targets"
proof (cases "requested = []")
  case True
  with assms have "t = default_targets" by (simp add: select_targets_Nil)
  then show ?thesis by (auto simp: support_targets_def)
next
  case False
  with assms have "t = py_inter (py_set requested) (py_set support_targets)"
    by (simp add: select_targets_nonempty split: if_splits)
  then show ?thesis by (simp add: set_py_inter set_py_set)
qed

lemma build_binary_nothing:
  assumes "ndk_verified h cfg"
    and "select_targets (case target a of None \<Rightarrow> [] | Some t \<Rightarrow> t) = None"
  shows "build_binary h cfg a w = Inr w"
  using assms by (simp add: build_binary_def)

text \<open>
  C1. An empty request resolves to the default list \<open>magisk, magiskinit, magiskboot,
  magiskpolicy, busybox\<close>; a non-empty request resolves to its intersection with the
  supported catalog (the defaults and \<open>resetprop\<close>), and when the intersection is empty
  the selection yields nothing to build: \<open>build_binary\<close>, past its check of the installed
  NDK, returns the world unchanged, with no process started, nothing logged and no
  error. A resolved set lies within the catalog.
\<close>

theorem target_selection:
  "select_targets [] = Some default_targets
   \<and> set default_targets = {''magisk'', ''magiskinit'', ''magiskboot'', ''magiskpolicy'', ''busybox''}
   \<and> set support_targets = set default_targets \<union> {''resetprop''}
   \<and> (requested \<noteq> [] \<and> set requested \<inter> set support_targets \<noteq> {} \<longrightarrow>
        (\<exists>t. select_targets requested = Some t \<and> set t = set requested \<inter> set support_targets))
   \<and> (requested \<noteq> [] \<and> set requested \<inter> set support_targets = {} \<longrightarrow>
        select_targets requested = None
        \<and> (ndk_verified h cfg \<longrightarrow> build_binary h cfg (a\<lparr>target := Some requested\<rparr>) w = Inr w))
   \<and> (select_targets requested = Some t \<longrightarrow> set t \<subseteq> set support_targets)
   \<and> (ndk_verified h cfg \<and> (target a = None \<or> target a = Some []) \<longrightarrow>
        build_binary h cfg a w =
          build_selected h cfg (a\<lparr>target := Some default_targets\<rparr>) default_targets w)"
proof -
  have a: "select_targets [] = Some default_targets" by (rule select_targets_Nil)
  have b: "set default_targets = {''magisk'', ''magiskinit'', ''magiskboot'', ''magiskpolicy'', ''busybox''}"
    by (simp add: default_targets_def)
  have c: "set support_targets = set default_targets \<union> {''resetprop''}"
    by (simp add: support_targets_def)
  have d: "requested \<noteq> [] \<and> set requested \<inter> set support_targets \<noteq> {} \<longrightarrow>
        (\<exists>t. select_targets requested = Some t \<and> set t = set requested \<inter> set support_targets)"
    by (simp add: select_targets_nonempty set_py_inter set_py_set)
  have e: "requested \<noteq> [] \<and> set requested \<inter> set support_targets = {} \<longrightarrow>
        select_targets requested = None
        \<and> (ndk_verified h cfg \<longrightarrow> build_binary h cfg (a\<lparr>target := Some requested\<rparr>) w = Inr w)"
  proof (intro impI, elim conjE)
    assume "requested \<noteq> []" "set requested \<inter> set support_targets = {}"
    then have n: "select_targets requested = None" by (simp add: select_targets_nonempty)
    then have "ndk_verified h cfg \<longrightarrow> build_binary h cfg (a\<lparr>target := Some requested\<rparr>) w = Inr w"
      by (simp add: build_binary_nothing)
    with n show "select_targets requested = None
        \<and> (ndk_verified h cfg \<longrightarrow> build_binary h cfg (a\<lparr>target := Some requested\<rparr>) w = Inr w)"
      by simp
  qed
  have f: "select_targets requested = Some t \<longrightarrow> set t \<subseteq> set support_targets"
    using select_targets_subset by blast
  have g: "ndk_verified h cfg \<and> (target a = None \<or> target a = Some []) \<longrightarrow>
        build_binary h cfg a w =
          build_selected h cfg (a\<lparr>target := Some default_targets\<rparr>) default_targets w"
    by (auto simp: build_binary_def select_targets_Nil)
  from a b c d e f g show ?thesis by (iprover intro: conjI)
qed

theorem target_selection_witness:
  "[''resetprop'', ''bogus''] \<noteq> []
   \<and> set [''resetprop'', ''bogus''] \<inter> set support_targets \<noteq> {}
   \<and> select_targets [''resetprop'', ''bogus''] = Some [''resetprop'']
   \<and> set [''resetprop''] \<subseteq> set support_targets
   \<and> [''bogus''] \<noteq> []
   \<and> set [''bogus''] \<inter> set support_targets = {}
   \<and> select_targets [''bogus''] = None
   \<and> ndk_verified host0 config0
   \<and> build_binary host0 config0 (args0\<lparr>target := Some [''bogus'']\<rparr>) (gen_world []) = Inr (gen_world [])
   \<and> target (args0\<lparr>target := None\<rparr>) = None
   \<and> build_binary host0 config0 (args0\<lparr>target := None\<rparr>) (gen_world []) =
        build_selected host0 config0 (args0\<lparr>target := Some default_targets\<rparr>) default_targets (gen_world [])"
proof -
  have st: "set support_targets = {''magisk'', ''magiskinit'', ''magiskboot'', ''magiskpolicy'', ''busybox'', ''resetprop''}"
    by (auto simp: support_targets_def default_targets_def)
  have h1: "[''resetprop'', ''bogus''] \<noteq> []" by simp
  have h2: "set [''resetprop'', ''bogus''] \<inter> set support_targets \<noteq> {}" by (simp add: st)
  have c1: "select_targets [''resetprop'', ''bogus''] = Some [''resetprop'']"
    by (simp add: select_targets_def py_inter_def py_set_def support_targets_def default_targets_def)
  from target_selection [of "[''resetprop'', ''bogus'']" _ _ _ _ "[''resetprop'']"] c1
  have c2: "set [''resetprop''] \<subseteq> set support_targets" by blast
  have h3: "[''bogus''] \<noteq> []" by simp
  have h4: "set [''bogus''] \<inter> set support_targets = {}" by (simp add: st)
  have h5: "ndk_verified host0 config0"
    by (simp add: ndk_verified_def host0_def config0_def strip_def is_space_def)
  from target_selection [of "[''bogus'']" host0 config0 args0 "gen_world []"] h3 h4 h5
  have c3: "select_targets [''bogus''] = None"
    and c4: "build_binary host0 config0 (args0\<lparr>target := Some [''bogus'']\<rparr>) (gen_world []) = Inr (gen_world [])"
    by blast+
  have h6: "target (args0\<lparr>target := None\<rparr>) = None" by simp
  from target_selection [of _ host0 config0 "args0\<lparr>target := None\<rparr>" "gen_world []"] h5 h6
  have c5: "build_binary host0 config0 (args0\<lparr>target := None\<rparr>) (gen_world []) =
        build_selected host0 config0 (args0\<lparr>target := Some default_targets\<rparr>) default_targets (gen_world [])"
    by simp
  from h1 h2 c1 c2 h3 h4 c3 h5 c4 h6 c5 show ?thesis by (iprover intro: conjI)
qed


subsection \<open>The flag header\<close>

text \<open>The value of a decimal numeral, to read back what \<open>str\<close> renders.\<close>

definition digit_value :: "char \<Rightarrow> nat" where
  "digit_value c = of_char c - of_char (CHR ''0'')"

definition dec_value :: "string \<Rightarrow> nat" where
  "dec_value s = foldl (\<lambda>acc c. 10 * acc + digit_value c) 0 s"

lemma digit_char_decimal:
  assumes "d < 10"
  shows "digit_char d \<in> set ''0123456789'' \<and> digit_value (digit_char d) = d"
proof -
  from assms have "d \<in> {0, 1, 2, 3, 4, 5, 6, 7, 8, 9}" by auto
  then show ?thesis
    by (auto simp: digit_char_def digit_value_def)
qed

lemma str_nat_digits: "set (str_nat n) \<subseteq> set ''0123456789''"
proof (induction n rule: str_nat.induct)
  case (1 n)
  show ?case
  proof (cases "n < 10")
    case True
    then have "str_nat n = [digit_char n]" by (subst str_nat.simps) simp
    with digit_char_decimal [OF True] show ?thesis by simp
  next
    case False
    then have e: "str_nat n = str_nat (n div 10) @ [digit_char (n mod 10)]"
      by (subst str_nat.simps) simp
    have "n mod 10 < 10" by simp
    from digit_char_decimal [OF this] 1 [OF False] show ?thesis
      unfolding e by simp
  qed
qed

lemma dec_value_str_nat: "dec_value (str_nat n) = n"
proof (induction n rule: str_nat.induct)
  case (1 n)
  show ?case
  proof (cases "n < 10")
    case True
    then have "str_nat n = [digit_char n]" by (subst str_nat.simps) simp
    with digit_char_decimal [OF True] show ?thesis by (simp add: dec_value_def)
  next
    case False
    then have e: "str_nat n = str_nat (n div 10) @ [digit_char (n mod 10)]"
      by (subst str_nat.simps) simp
    have "n mod 10 < 10" by simp
    from digit_char_decimal [OF this] 1 [OF False] show ?thesis
      unfolding e by (simp add: dec_value_def)
  qed
qed

lemma str_int_no_newline: "CHR 0x0A \<notin> set (str_int i)"
proof -
  have "CHR 0x0A \<notin> set (str_nat n)" for n
    using str_nat_digits [of n] by auto
  then show ?thesis by (simp add: str_int_def)
qed

lemma count_newline_template: "count_list flag_template (CHR 0x0A) = 5"
  by (simp add: flag_template_def)

lemma count_list_notin: "x \<notin> set xs \<Longrightarrow> count_list xs x = 0"
  by (induction xs) auto

lemma dump_flag_header_result:
  assumes "dump_flag_header h cfg a w = Inr w'"
  shows "read_text h (fs w') (native_gen_path @ [''flags.h'']) = Inr (flag_txt cfg a)
         \<or> lookup (fs w') (native_gen_path @ [''flags.h''])
             = Some (File False (newline_out (is_windows h) (flag_txt cfg a)))"
proof -
  from assms obtain t where
    wr: "write_if_diff h (Abs (native_gen_path @ [''flags.h''])) (flag_txt cfg a) (w\<lparr>fs := t\<rparr>)
           = Inr w'"
    by (auto simp: dump_flag_header_def then_do_eq_Inr)
  from write_if_diff_result [OF wr] show ?thesis by (simp add: locate_Abs)
qed

lemma dump_flag_header_stable:
  assumes "dump_flag_header h cfg a w = Inr w'" and "stable_text h (flag_txt cfg a)"
  shows "read_text h (fs w') (native_gen_path @ [''flags.h'']) = Inr (flag_txt cfg a)"
proof -
  from assms(1) obtain t where
    wr: "write_if_diff h (Abs (native_gen_path @ [''flags.h''])) (flag_txt cfg a) (w\<lparr>fs := t\<rparr>)
           = Inr w'"
    by (auto simp: dump_flag_header_def then_do_eq_Inr)
  from write_if_diff_stable [OF wr assms(2)] show ?thesis by (simp add: locate_Abs)
qed

lemma str_int_plain: "list_all plain_char (str_int i)"
proof -
  have "list_all plain_char (str_nat n)" for n
    using str_nat_digits [of n] by (auto simp: list_all_iff plain_char_def)
  moreover have "list_all plain_char ''-''" by (simp add: plain_char_def)
  ultimately show ?thesis by (simp add: str_int_def)
qed

lemma flag_template_plain: "list_all plain_char flag_template"
  by (simp add: flag_template_def plain_char_def)

lemma flag_txt_plain:
  assumes "list_all plain_char (version cfg)"
  shows "list_all plain_char (flag_txt cfg a)"
proof -
  have \<open>list_all plain_char ''#define MAGISK_VERSION      "''\<close>
    \<open>list_all plain_char ''"\<newline>''\<close>
    \<open>list_all plain_char ''#define MAGISK_VER_CODE     ''\<close>
    \<open>list_all plain_char ''#define MAGISK_DEBUG        ''\<close>
    \<open>list_all plain_char ''\<newline>''\<close>
    by (simp_all add: plain_char_def)
  with assms flag_template_plain str_int_plain show ?thesis
    unfolding flag_txt_def by (simp only: list_all_append)
qed


lemma str_int_bit: "str_int (if b then 0 else 1) = (if b then ''0'' else ''1'')"
  by (simp add: str_int_def str_nat.simps digit_char_def)

lemma flag_txt_newlines:
  assumes "CHR 0x0A \<notin> set (version cfg)"
  shows "count_list (flag_txt cfg a) (CHR 0x0A) = 8"
proof -
  have "count_list (version cfg) (CHR 0x0A) = 0"
    using assms by (rule count_list_notin)
  moreover have "count_list (str_int i) (CHR 0x0A) = 0" for i
    using str_int_no_newline by (rule count_list_notin)
  ultimately show ?thesis
    by (simp add: flag_txt_def count_newline_template)
qed

text \<open>
  C7. The text of the flag header is the fixed template followed by three lines: the
  version string between double quotes, the version code in decimal, and the debug flag,
  \<open>0\<close> for a release and \<open>1\<close> otherwise. With a version string of one line the text has
  the five lines of the template and these three. It depends on the version, the version
  code and the profile only, and it is the text of \<open>flags.h\<close> under the generated directory
  after \<open>dump_flag_header\<close>: the file reads as this text, or holds it as it was written,
  with the line ending of the platform; for a stable text, which it is when the version
  string is made of ASCII characters without carriage return, the file reads as this text.
\<close>

theorem flag_header_content:
  \<open>flag_txt cfg a =
     flag_template
       @ ''#define MAGISK_VERSION      "'' @ version cfg @ ''"\<newline>''
       @ ''#define MAGISK_VER_CODE     '' @ str_int (versionCode cfg) @ ''\<newline>''
       @ ''#define MAGISK_DEBUG        '' @ (if release a then ''0'' else ''1'') @ ''\<newline>''
   \<and> (0 \<le> versionCode cfg \<longrightarrow> dec_value (str_int (versionCode cfg)) = nat (versionCode cfg))
   \<and> (CHR 0x0A \<notin> set (version cfg) \<longrightarrow> count_list (flag_txt cfg a) (CHR 0x0A) = 8)
   \<and> (version cfg = version cfg' \<and> versionCode cfg = versionCode cfg' \<and> release a = release a'
        \<longrightarrow> flag_txt cfg a = flag_txt cfg' a')
   \<and> (dump_flag_header h cfg a w = Inr w' \<longrightarrow>
        read_text h (fs w') [''native'', ''out'', ''generated'', ''flags.h'']
          = Inr (flag_txt cfg a)
        \<or> lookup (fs w') [''native'', ''out'', ''generated'', ''flags.h'']
            = Some (File False (newline_out (is_windows h) (flag_txt cfg a))))
   \<and> (dump_flag_header h cfg a w = Inr w' \<and> stable_text h (flag_txt cfg a) \<longrightarrow>
        read_text h (fs w') [''native'', ''out'', ''generated'', ''flags.h'']
          = Inr (flag_txt cfg a))
   \<and> (list_all plain_char (version cfg) \<longrightarrow> stable_text h (flag_txt cfg a))\<close>
proof -
  have a: \<open>flag_txt cfg a =
     flag_template
       @ ''#define MAGISK_VERSION      "'' @ version cfg @ ''"\<newline>''
       @ ''#define MAGISK_VER_CODE     '' @ str_int (versionCode cfg) @ ''\<newline>''
       @ ''#define MAGISK_DEBUG        '' @ (if release a then ''0'' else ''1'') @ ''\<newline>''\<close>
    by (simp add: flag_txt_def str_int_bit)
  have b: "0 \<le> versionCode cfg \<longrightarrow> dec_value (str_int (versionCode cfg)) = nat (versionCode cfg)"
    by (simp add: str_int_def dec_value_str_nat)
  have c: "CHR 0x0A \<notin> set (version cfg) \<longrightarrow> count_list (flag_txt cfg a) (CHR 0x0A) = 8"
    using flag_txt_newlines by blast
  have d: "version cfg = version cfg' \<and> versionCode cfg = versionCode cfg' \<and> release a = release a'
        \<longrightarrow> flag_txt cfg a = flag_txt cfg' a'"
    by (simp add: flag_txt_def)
  have e: "dump_flag_header h cfg a w = Inr w' \<longrightarrow>
        read_text h (fs w') [''native'', ''out'', ''generated'', ''flags.h'']
          = Inr (flag_txt cfg a)
        \<or> lookup (fs w') [''native'', ''out'', ''generated'', ''flags.h'']
            = Some (File False (newline_out (is_windows h) (flag_txt cfg a)))"
    using dump_flag_header_result [of h cfg a w w'] by (simp add: native_gen_path_def)
  have f: "dump_flag_header h cfg a w = Inr w' \<and> stable_text h (flag_txt cfg a) \<longrightarrow>
        read_text h (fs w') [''native'', ''out'', ''generated'', ''flags.h'']
          = Inr (flag_txt cfg a)"
    using dump_flag_header_stable [of h cfg a w w'] by (simp add: native_gen_path_def)
  have g: "list_all plain_char (version cfg) \<longrightarrow> stable_text h (flag_txt cfg a)"
    using flag_txt_plain [of cfg a] plain_stable [of "flag_txt cfg a" h] by blast
  from a b c d e f g show ?thesis by (iprover intro: conjI)
qed

theorem flag_header_content_witness:
  \<open>flag_txt config0 args0 =
     flag_template
       @ ''#define MAGISK_VERSION      "v1"\<newline>''
       @ ''#define MAGISK_VER_CODE     27000\<newline>''
       @ ''#define MAGISK_DEBUG        0\<newline>''
   \<and> 0 \<le> versionCode config0
   \<and> dec_value (str_int (versionCode config0)) = 27000
   \<and> CHR 0x0A \<notin> set (version config0)
   \<and> count_list (flag_txt config0 args0) (CHR 0x0A) = 8
   \<and> version config0 = version (config0\<lparr>ondkVersion := None\<rparr>)
   \<and> versionCode config0 = versionCode (config0\<lparr>ondkVersion := None\<rparr>)
   \<and> release args0 = release (args0\<lparr>verbose := True\<rparr>)
   \<and> flag_txt config0 args0 = flag_txt (config0\<lparr>ondkVersion := None\<rparr>) (args0\<lparr>verbose := True\<rparr>)
   \<and> list_all plain_char (version config0)
   \<and> stable_text host0 (flag_txt config0 args0)
   \<and> (\<exists>w'. dump_flag_header host0 config0 args0 (gen_world []) = Inr w'
         \<and> read_text host0 (fs w') [''native'', ''out'', ''generated'', ''flags.h'']
              = Inr (flag_txt config0 args0)
         \<and> lookup (fs w') [''native'', ''out'', ''generated'', ''flags.h'']
              = Some (File False (flag_txt config0 args0)))\<close>
proof -
  note t = flag_header_content [of config0 args0 "config0\<lparr>ondkVersion := None\<rparr>"
      "args0\<lparr>verbose := True\<rparr>" host0 "gen_world []"]
  have s: "str_int (versionCode config0) = ''27000''"
    by (simp add: config0_def str_int_def str_nat.simps digit_char_def)
  from t have c1: \<open>flag_txt config0 args0 =
     flag_template
       @ ''#define MAGISK_VERSION      "v1"\<newline>''
       @ ''#define MAGISK_VER_CODE     27000\<newline>''
       @ ''#define MAGISK_DEBUG        0\<newline>''\<close>
    unfolding s by (simp add: config0_def args0_def)
  have h2: "0 \<le> versionCode config0" by (simp add: config0_def)
  with t have c2: "dec_value (str_int (versionCode config0)) = 27000"
    by (simp add: config0_def)
  have h3: "CHR 0x0A \<notin> set (version config0)" by (simp add: config0_def)
  with t have c3: "count_list (flag_txt config0 args0) (CHR 0x0A) = 8" by blast
  have h4: "version config0 = version (config0\<lparr>ondkVersion := None\<rparr>)"
    "versionCode config0 = versionCode (config0\<lparr>ondkVersion := None\<rparr>)"
    "release args0 = release (args0\<lparr>verbose := True\<rparr>)"
    by simp_all
  with t have c4: "flag_txt config0 args0 = flag_txt (config0\<lparr>ondkVersion := None\<rparr>) (args0\<lparr>verbose := True\<rparr>)"
    by blast
  have h5: "list_all plain_char (version config0)"
    by (simp add: config0_def plain_char_def)
  with t have c5: "stable_text host0 (flag_txt config0 args0)" by blast
  have "succeeds (dump_flag_header host0 config0 args0 (gen_world []))"
    by (simp add: succeeds_def dump_flag_header_def gen_world_def mkdir_parents_def
          make_dirs_def is_file_def
          native_gen_path_def mkdir_def then_do_def write_if_diff_def locate_def Let_def
          path_exists_def write_text_def write_file_def log_def)
  then obtain v where h6: "dump_flag_header host0 config0 args0 (gen_world []) = Inr v"
    using succeedsE by blast
  from t [of v] h6 c5
  have c6: "read_text host0 (fs v) [''native'', ''out'', ''generated'', ''flags.h'']
              = Inr (flag_txt config0 args0)"
    by blast
  have ro: "lookup (fs v) [''native'', ''out'', ''generated'', ''flags.h'']
              = Some (File False (flag_txt config0 args0))"
    using h6
    by (auto simp: dump_flag_header_def gen_world_def mkdir_parents_def
          make_dirs_def is_file_def
          native_gen_path_def mkdir_def then_do_def write_if_diff_def locate_def Let_def
          path_exists_def write_text_def write_file_def log_def newline_out_def host0_posix)
  from h6 c6 ro have c7: "\<exists>w'. dump_flag_header host0 config0 args0 (gen_world []) = Inr w'
         \<and> read_text host0 (fs w') [''native'', ''out'', ''generated'', ''flags.h'']
              = Inr (flag_txt config0 args0)
         \<and> lookup (fs w') [''native'', ''out'', ''generated'', ''flags.h'']
              = Some (File False (flag_txt config0 args0))"
    by blast
  from c1 h2 c2 h3 c3 h4 c4 h5 c5 c7 show ?thesis by (iprover intro: conjI)
qed


subsection \<open>The payload array\<close>

text \<open>
  The layout the specification describes, to compare with the loop of \<open>binary_dump\<close>: the
  bytes in rows of sixteen, each row on a line of its own, each byte as a literal
  \<open>0xHH,\<close>.
\<close>

definition hex_literal :: "char \<Rightarrow> string" where
  "hex_literal c = ''0x'' @ fmt_02X (of_char c) @ '',''"

fun rows_of_16 :: "string \<Rightarrow> string list" where
  "rows_of_16 [] = []"
| "rows_of_16 (x # xs) = take 16 (x # xs) # rows_of_16 (drop 16 (x # xs))"

definition render_row :: "string \<Rightarrow> string" where
  "render_row row = ''\<newline>'' @ concat (map hex_literal row)"

definition array_declaration :: "string \<Rightarrow> string \<Rightarrow> string" where
  "array_declaration var_name bytes =
     ''constexpr unsigned char '' @ var_name @ ''[] = {''
       @ concat (map render_row (rows_of_16 bytes)) @ ''\<newline>};\<newline>''"

text \<open>What the loop appends, by position.\<close>

fun dump_body :: "nat \<Rightarrow> string \<Rightarrow> string" where
  "dump_body i [] = []"
| "dump_body i (c # cs) =
     (if i mod 16 = 0 then ''\<newline>'' else []) @ hex_literal c @ dump_body (Suc i) cs"

lemma dump_loop_body: "dump_loop i bs out_str = out_str @ dump_body i bs"
  by (induction bs arbitrary: i out_str) (simp_all add: hex_literal_def)

lemma dump_body_append:
  "dump_body i (xs @ ys) = dump_body i xs @ dump_body (i + length xs) ys"
  by (induction xs arbitrary: i) simp_all

lemma dump_body_inside:
  "i mod 16 \<noteq> 0 \<Longrightarrow> i mod 16 + length row \<le> 16 \<Longrightarrow> dump_body i row = concat (map hex_literal row)"
proof (induction row arbitrary: i)
  case Nil
  then show ?case by simp
next
  case (Cons c cs)
  show ?case
  proof (cases cs)
    case Nil
    with Cons.prems show ?thesis by simp
  next
    case (Cons d ds)
    with Cons.prems have "Suc i mod 16 = Suc (i mod 16)" by (simp add: mod_Suc)
    with Cons.prems Cons.IH [of "Suc i"] show ?thesis by simp
  qed
qed

lemma dump_body_row:
  assumes "i mod 16 = 0" and "row \<noteq> []" and "length row \<le> 16"
  shows "dump_body i row = render_row row"
proof -
  from assms(2) obtain c cs where row: "row = c # cs" by (cases row) auto
  have "dump_body (Suc i) cs = concat (map hex_literal cs)"
  proof (cases cs)
    case Nil
    then show ?thesis by simp
  next
    case (Cons d ds)
    from assms(1) have "Suc i mod 16 = 1" by (simp add: mod_Suc)
    with assms(3) row show ?thesis by (intro dump_body_inside) simp_all
  qed
  with assms(1) row show ?thesis by (simp add: render_row_def)
qed

lemma dump_body_rows:
  "i mod 16 = 0 \<Longrightarrow> dump_body i bs = concat (map render_row (rows_of_16 bs))"
proof (induction bs arbitrary: i rule: rows_of_16.induct)
  case 1
  then show ?case by simp
next
  case (2 x xs)
  let ?bs = "x # xs"
  have split: "?bs = take 16 ?bs @ drop 16 ?bs" by simp
  have row: "dump_body i (take 16 ?bs) = render_row (take 16 ?bs)"
    using "2.prems" by (intro dump_body_row) simp_all
  have rest: "dump_body (i + length (take 16 ?bs)) (drop 16 ?bs)
                = concat (map render_row (rows_of_16 (drop 16 ?bs)))"
  proof (cases "drop 16 ?bs = []")
    case True
    then show ?thesis by simp
  next
    case False
    then have "length (take 16 ?bs) = 16" by simp
    with "2.prems" have "(i + length (take 16 ?bs)) mod 16 = 0" by simp
    then show ?thesis by (rule "2.IH")
  qed
  have "dump_body i ?bs = dump_body i (take 16 ?bs) @ dump_body (i + length (take 16 ?bs)) (drop 16 ?bs)"
    by (subst split) (rule dump_body_append)
  with row rest show ?case by simp
qed

lemma binary_dump_layout:
  "binary_dump src var_name compressor = array_declaration var_name (compressor src)"
  by (simp add: binary_dump_def array_declaration_def dump_loop_body dump_body_rows)

lemma rows_of_16_concat: "concat (rows_of_16 bs) = bs"
  by (induction bs rule: rows_of_16.induct) simp_all

lemma rows_of_16_length:
  "row \<in> set (rows_of_16 bs) \<Longrightarrow> 1 \<le> length row \<and> length row \<le> 16"
  by (induction bs rule: rows_of_16.induct) auto

definition hex_value :: "char \<Rightarrow> nat" where
  "hex_value c = length (takeWhile (\<lambda>d. d \<noteq> c) ''0123456789ABCDEF'')"

lemma digit_char_hex:
  assumes "d < 16"
  shows "digit_char d \<in> set ''0123456789ABCDEF'' \<and> hex_value (digit_char d) = d"
proof -
  from assms have "d = 0 \<or> d = 1 \<or> d = 2 \<or> d = 3 \<or> d = 4 \<or> d = 5 \<or> d = 6 \<or> d = 7
      \<or> d = 8 \<or> d = 9 \<or> d = 10 \<or> d = 11 \<or> d = 12 \<or> d = 13 \<or> d = 14 \<or> d = 15"
    by arith
  then show ?thesis
    by (auto simp: digit_char_def hex_value_def)
qed

lemma fmt_02X_byte:
  assumes "n < 256"
  shows "fmt_02X n = [digit_char (n div 16), digit_char (n mod 16)]"
proof (cases "n < 16")
  case True
  then have "to_hex n = [digit_char n]" by (subst to_hex.simps) simp
  with True show ?thesis by (simp add: fmt_02X_def digit_char_def)
next
  case False
  with assms have "n div 16 < 16" by arith
  then have "to_hex (n div 16) = [digit_char (n div 16)]" by (subst to_hex.simps) simp
  with False have "to_hex n = [digit_char (n div 16), digit_char (n mod 16)]"
    by (subst to_hex.simps) simp
  then show ?thesis by (simp add: fmt_02X_def)
qed

lemma of_char_byte: "(of_char c :: nat) < 256"
proof -
  have "(of_char c :: nat) mod 256 = of_char c" by (rule of_char_mod_256)
  then show ?thesis by (metis mod_less_divisor zero_less_numeral)
qed

lemma hex_literal_shape:
  "\<exists>hi lo. hex_literal c = [CHR ''0'', CHR ''x'', hi, lo, CHR '','']
     \<and> hi \<in> set ''0123456789ABCDEF'' \<and> lo \<in> set ''0123456789ABCDEF''
     \<and> 16 * hex_value hi + hex_value lo = of_char c"
proof -
  let ?n = "of_char c :: nat"
  have n: "?n < 256" by (rule of_char_byte)
  then have hi: "?n div 16 < 16" by arith
  have lo: "?n mod 16 < 16" by simp
  have "hex_literal c = [CHR ''0'', CHR ''x'', digit_char (?n div 16), digit_char (?n mod 16), CHR '','']"
    by (simp add: hex_literal_def fmt_02X_byte [OF n])
  moreover have "16 * hex_value (digit_char (?n div 16)) + hex_value (digit_char (?n mod 16)) = ?n"
    using digit_char_hex [OF hi] digit_char_hex [OF lo] by simp
  ultimately show ?thesis using digit_char_hex [OF hi] digit_char_hex [OF lo] by blast
qed

text \<open>
  Reading the array back: the bytes that the literals \<open>0xHH,\<close> after the opening brace
  denote.
\<close>

fun scan_literals :: "string \<Rightarrow> string" where
  "scan_literals (a # b # hi # lo # e # rest) =
     (if a = CHR ''0'' \<and> b = CHR ''x'' \<and> e = CHR '',''
      then char_of (16 * hex_value hi + hex_value lo) # scan_literals rest
      else scan_literals (b # hi # lo # e # rest))"
| "scan_literals s = []"

definition array_bytes :: "string \<Rightarrow> string" where
  "array_bytes header_text = scan_literals (dropWhile (\<lambda>c. c \<noteq> CHR ''{'') header_text)"

lemma scan_hex_literal: "scan_literals (hex_literal c @ rest) = c # scan_literals rest"
proof -
  obtain hi lo where h: "hex_literal c = [CHR ''0'', CHR ''x'', hi, lo, CHR '','']"
    and v: "16 * hex_value hi + hex_value lo = of_char c"
    using hex_literal_shape by blast
  have "char_of (of_char c :: nat) = c" by simp
  with h v show ?thesis by simp
qed

lemma scan_newline_literal:
  "scan_literals (CHR 0x0A # hex_literal c @ rest) = c # scan_literals rest"
proof -
  obtain hi lo where h: "hex_literal c = [CHR ''0'', CHR ''x'', hi, lo, CHR '','']"
    using hex_literal_shape by blast
  have "scan_literals (CHR 0x0A # hex_literal c @ rest) = scan_literals (hex_literal c @ rest)"
    unfolding h by simp
  then show ?thesis by (simp add: scan_hex_literal)
qed

lemma scan_dump_body: "scan_literals (dump_body i bs @ ''\<newline>};\<newline>'') = bs"
  by (induction bs arbitrary: i) (simp_all add: scan_hex_literal scan_newline_literal)

lemma array_bytes_binary_dump:
  assumes "CHR ''{'' \<notin> set var_name"
  shows "array_bytes (binary_dump src var_name compressor) = compressor src"
proof -
  let ?body = "dump_body 0 (compressor src) @ ''\<newline>};\<newline>''"
  have "dropWhile (\<lambda>c. c \<noteq> CHR ''{'') (''constexpr unsigned char '' @ var_name @ ''[] = {'' @ ?body)
          = CHR ''{'' # ?body"
    using assms by (simp add: dropWhile_append)
  moreover have "scan_literals (CHR ''{'' # ?body) = scan_literals ?body"
  proof (cases "compressor src")
    case Nil
    then show ?thesis by simp
  next
    case (Cons c cs)
    obtain hi lo where h: "hex_literal c = [CHR ''0'', CHR ''x'', hi, lo, CHR '','']"
      using hex_literal_shape by blast
    show ?thesis unfolding Cons by (simp add: h)
  qed
  ultimately show ?thesis
    by (simp add: array_bytes_def binary_dump_def dump_loop_body scan_dump_body)
qed

lemma dump_bin_header_current:
  assumes "dump_bin_header h w = Inr w'" and "cwd w = []" and "arch \<in> set archs"
  shows "payload_current h (fs w') arch"
proof -
  from assms(1) obtain t where
    f: "fold (\<lambda>arch r. then_do r (dump_bin_header_arch h arch)) archs (Inr (w\<lparr>fs := t\<rparr>)) = Inr w'"
    by (auto simp: dump_bin_header_def then_do_eq_Inr)
  have "(\<forall>a\<in>{} \<union> set archs. payload_current h (fs w') a) \<and> cwd w' = []
         \<and> (\<forall>q. is_dir (fs (w\<lparr>fs := t\<rparr>)) q \<longrightarrow> is_dir (fs w') q)"
  proof (rule dump_bin_header_fold_current [OF f])
    show "cwd (w\<lparr>fs := t\<rparr>) = []" using assms(2) by simp
    show "distinct archs" by (simp add: archs_def)
  qed simp_all
  with assms(3) show ?thesis by simp
qed

lemma payload_current_iff:
  "payload_current h t arch \<longleftrightarrow>
     (\<exists>src. read_file t [''native'', ''out'', arch, ''libinit-ld.so''] = Inr src
        \<and> read_text h t [''native'', ''out'', ''generated'', arch @ ''_binaries.h'']
             = Inr (binary_dump src ''init_ld_xz'' (xz h)))"
  by (auto simp: payload_current_def native_gen_path_def split: sum.splits)

text \<open>
  C6. \<open>binary_dump\<close> yields one declaration \<open>constexpr unsigned char <name>[] = { ... };\<close>:
  the compressed bytes in rows of at most sixteen, each row on its own line, each byte as
  \<open>0x\<close>, two upper-case hexadecimal digits that denote the byte, and a comma. After
  \<open>dump_bin_header\<close>, started in the project root, the text of the file
  \<open><arch>_binaries.h\<close> of the generated directory is, for each architecture, the dump under
  the name \<open>init_ld_xz\<close> of the compressed \<open>libinit-ld.so\<close> of that architecture.
\<close>

theorem payload_header_format:
  "binary_dump src var_name compressor =
     ''constexpr unsigned char '' @ var_name @ ''[] = {''
       @ concat (map render_row (rows_of_16 (compressor src))) @ ''\<newline>};\<newline>''
   \<and> concat (rows_of_16 (compressor src)) = compressor src
   \<and> render_row row = ''\<newline>'' @ concat (map hex_literal row)
   \<and> (row \<in> set (rows_of_16 (compressor src)) \<longrightarrow> 1 \<le> length row \<and> length row \<le> 16)
   \<and> (\<exists>hi lo. hex_literal c = [CHR ''0'', CHR ''x'', hi, lo, CHR '','']
          \<and> hi \<in> set ''0123456789ABCDEF'' \<and> lo \<in> set ''0123456789ABCDEF''
          \<and> 16 * hex_value hi + hex_value lo = of_char c)
   \<and> (dump_bin_header h w = Inr w' \<and> cwd w = [] \<and> arch \<in> set archs \<longrightarrow>
        (\<exists>lib. read_file (fs w') [''native'', ''out'', arch, ''libinit-ld.so''] = Inr lib
           \<and> read_text h (fs w') [''native'', ''out'', ''generated'', arch @ ''_binaries.h'']
                = Inr (binary_dump lib ''init_ld_xz'' (xz h))))"
proof -
  have a: "binary_dump src var_name compressor =
     ''constexpr unsigned char '' @ var_name @ ''[] = {''
       @ concat (map render_row (rows_of_16 (compressor src))) @ ''\<newline>};\<newline>''"
    by (simp add: binary_dump_layout array_declaration_def)
  have b: "concat (rows_of_16 (compressor src)) = compressor src"
    by (rule rows_of_16_concat)
  have c: "render_row row = ''\<newline>'' @ concat (map hex_literal row)"
    by (simp add: render_row_def)
  have d: "row \<in> set (rows_of_16 (compressor src)) \<longrightarrow> 1 \<le> length row \<and> length row \<le> 16"
    using rows_of_16_length by blast
  note e = hex_literal_shape [of c]
  have f: "dump_bin_header h w = Inr w' \<and> cwd w = [] \<and> arch \<in> set archs \<longrightarrow>
        (\<exists>lib. read_file (fs w') [''native'', ''out'', arch, ''libinit-ld.so''] = Inr lib
           \<and> read_text h (fs w') [''native'', ''out'', ''generated'', arch @ ''_binaries.h'']
                = Inr (binary_dump lib ''init_ld_xz'' (xz h)))"
    using dump_bin_header_current [of h w w' arch] by (simp add: payload_current_iff)
  from a b c d e f show ?thesis by (iprover intro: conjI)
qed

definition lzma_lossless :: "host \<Rightarrow> bool" where
  "lzma_lossless h =
     (\<forall>preset check data. lzma_decompress h (lzma_compress h preset check data) = Some data)"

text \<open>
  C5. \<open>xz\<close> is \<open>lzma.compress\<close> with preset 9 and \<open>CHECK_NONE\<close>. The \<open>lzma\<close> library is a
  parameter of the host; for a library whose decompressor inverts its compressor,
  decompressing \<open>xz b\<close> gives \<open>b\<close>. The array that \<open>binary_dump\<close> emits denotes exactly the
  compressed bytes, so the array in the text of the payload header of each architecture
  decompresses to the bytes of the \<open>libinit-ld.so\<close> of that architecture.
\<close>

theorem payload_round_trip:
  "xz h b = lzma_compress h 9 CHECK_NONE b
   \<and> (lzma_lossless h \<longrightarrow> lzma_decompress h (xz h b) = Some b)
   \<and> (CHR ''{'' \<notin> set var_name \<longrightarrow> array_bytes (binary_dump b var_name (xz h)) = xz h b)
   \<and> (lzma_lossless h \<and> dump_bin_header h w = Inr w' \<and> cwd w = [] \<and> arch \<in> set archs \<longrightarrow>
        (\<exists>lib header_text.
            read_file (fs w') [''native'', ''out'', arch, ''libinit-ld.so''] = Inr lib
          \<and> read_text h (fs w') [''native'', ''out'', ''generated'', arch @ ''_binaries.h'']
               = Inr header_text
          \<and> lzma_decompress h (array_bytes header_text) = Some lib))"
proof -
  have a: "xz h b = lzma_compress h 9 CHECK_NONE b" by (simp add: xz_def)
  have b: "lzma_lossless h \<longrightarrow> lzma_decompress h (xz h b) = Some b"
    by (simp add: lzma_lossless_def xz_def)
  have c: "CHR ''{'' \<notin> set var_name \<longrightarrow> array_bytes (binary_dump b var_name (xz h)) = xz h b"
    using array_bytes_binary_dump by blast
  have d: "lzma_lossless h \<and> dump_bin_header h w = Inr w' \<and> cwd w = [] \<and> arch \<in> set archs \<longrightarrow>
        (\<exists>lib header_text.
            read_file (fs w') [''native'', ''out'', arch, ''libinit-ld.so''] = Inr lib
          \<and> read_text h (fs w') [''native'', ''out'', ''generated'', arch @ ''_binaries.h'']
               = Inr header_text
          \<and> lzma_decompress h (array_bytes header_text) = Some lib)"
  proof (intro impI, elim conjE)
    assume l: "lzma_lossless h" and r: "dump_bin_header h w = Inr w'" "cwd w = []" "arch \<in> set archs"
    from dump_bin_header_current [OF r] obtain lib where
      lib: "read_file (fs w') [''native'', ''out'', arch, ''libinit-ld.so''] = Inr lib"
      and hdr: "read_text h (fs w') [''native'', ''out'', ''generated'', arch @ ''_binaries.h'']
             = Inr (binary_dump lib ''init_ld_xz'' (xz h))"
      by (auto simp: payload_current_iff)
    have "array_bytes (binary_dump lib ''init_ld_xz'' (xz h)) = xz h lib"
      by (rule array_bytes_binary_dump) simp
    with l have "lzma_decompress h (array_bytes (binary_dump lib ''init_ld_xz'' (xz h))) = Some lib"
      by (simp add: lzma_lossless_def xz_def)
    with lib hdr show "\<exists>lib header_text.
            read_file (fs w') [''native'', ''out'', arch, ''libinit-ld.so''] = Inr lib
          \<and> read_text h (fs w') [''native'', ''out'', ''generated'', arch @ ''_binaries.h'']
               = Inr header_text
          \<and> lzma_decompress h (array_bytes header_text) = Some lib"
      by blast
  qed
  from a b c d show ?thesis by (iprover intro: conjI)
qed

text \<open>A host whose codec frames the data with one leading byte.\<close>

definition host1 :: host where
  "host1 = host0\<lparr>lzma_compress := (\<lambda>preset check data. CHR ''Z'' # data),
                  lzma_decompress := (\<lambda>data. Some (tl data))\<rparr>"

lemma host1_posix: "is_windows host1 = False"
  by (simp add: host1_def host0_def)

theorem payload_header_format_witness:
  "binary_dump ''ABCDEFGHIJKLMNOPQ'' ''init_ld_xz'' (\<lambda>x. x) =
     ''constexpr unsigned char init_ld_xz[] = {\<newline>0x41,0x42,0x43,0x44,0x45,0x46,0x47,0x48,0x49,0x4A,0x4B,0x4C,0x4D,0x4E,0x4F,0x50,\<newline>0x51,\<newline>};\<newline>''
   \<and> ''Q'' \<in> set (rows_of_16 ''ABCDEFGHIJKLMNOPQ'')
   \<and> 1 \<le> length ''Q'' \<and> length ''Q'' \<le> 16
   \<and> hex_literal (CHR ''Q'') = ''0x51,''
   \<and> (\<exists>v. dump_bin_header host0 libs_world = Inr v \<and> cwd libs_world = []
         \<and> ''x86'' \<in> set archs
         \<and> read_file (fs v) [''native'', ''out'', ''x86'', ''libinit-ld.so''] = Inr ''CD''
         \<and> read_text host0 (fs v) [''native'', ''out'', ''generated'', ''x86_binaries.h'']
              = Inr ''constexpr unsigned char init_ld_xz[] = {\<newline>0x43,0x44,\<newline>};\<newline>'')"
proof -
  have ev: "succeeds (dump_bin_header host0 libs_world)"
    by (simp add: succeeds_def dump_bin_header_def dump_bin_header_arch_def libs_world_def
          archs_def mkdir_parents_def make_dirs_def is_file_def read_file_def
          native_gen_path_def mkdir_def then_do_def write_if_diff_def locate_def Let_def
          path_exists_def write_text_def write_file_def log_def newline_out_def host0_posix)
  then obtain v where h1: "dump_bin_header host0 libs_world = Inr v"
    using succeedsE by blast
  have h2: "cwd libs_world = []" by (simp add: libs_world_def)
  have h3: "''x86'' \<in> set archs" by (simp add: archs_def)
  have h4: "''Q'' \<in> set (rows_of_16 ''ABCDEFGHIJKLMNOPQ'')" by simp
  note t = payload_header_format [of "''ABCDEFGHIJKLMNOPQ''" "''init_ld_xz''" "\<lambda>x. x" "''Q''"
      "CHR ''Q''" host0 libs_world v "''x86''"]
  have rows: "rows_of_16 ''ABCDEFGHIJKLMNOPQ'' = [''ABCDEFGHIJKLMNOP'', ''Q'']" by simp
  have lits: "hex_literal (CHR ''Q'') = ''0x51,''"
    by (simp add: hex_literal_def fmt_02X_def to_hex.simps digit_char_def)
  from t have c1: "binary_dump ''ABCDEFGHIJKLMNOPQ'' ''init_ld_xz'' (\<lambda>x. x) =
     ''constexpr unsigned char init_ld_xz[] = {\<newline>0x41,0x42,0x43,0x44,0x45,0x46,0x47,0x48,0x49,0x4A,0x4B,0x4C,0x4D,0x4E,0x4F,0x50,\<newline>0x51,\<newline>};\<newline>''"
    unfolding rows
    by (simp add: render_row_def hex_literal_def fmt_02X_def to_hex.simps digit_char_def)
  from t h4 have c2: "1 \<le> length ''Q'' \<and> length ''Q'' \<le> 16" by blast
  from t h1 h2 h3 obtain lib where
    r: "read_file (fs v) [''native'', ''out'', ''x86'', ''libinit-ld.so''] = Inr lib"
    and l: "read_text host0 (fs v) [''native'', ''out'', ''generated'', ''x86'' @ ''_binaries.h'']
             = Inr (binary_dump lib ''init_ld_xz'' (xz host0))"
    by blast
  have r': "read_file (fs v) [''native'', ''out'', ''x86'', ''libinit-ld.so''] = Inr ''CD''"
    using h1
    by (auto simp: dump_bin_header_def dump_bin_header_arch_def libs_world_def
          archs_def mkdir_parents_def make_dirs_def is_file_def read_file_def
          native_gen_path_def mkdir_def then_do_def write_if_diff_def locate_def Let_def
          path_exists_def write_text_def write_file_def log_def newline_out_def host0_posix)
  with r have lib: "lib = ''CD''" by simp
  have d: "binary_dump ''CD'' ''init_ld_xz'' (xz host0) =
        ''constexpr unsigned char init_ld_xz[] = {\<newline>0x43,0x44,\<newline>};\<newline>''"
    by (simp add: binary_dump_def xz_def host0_def fmt_02X_def to_hex.simps digit_char_def)
  from l lib d have c3: "read_text host0 (fs v) [''native'', ''out'', ''generated'', ''x86_binaries.h'']
       = Inr ''constexpr unsigned char init_ld_xz[] = {\<newline>0x43,0x44,\<newline>};\<newline>''"
    by simp
  from h1 h2 h3 r' c3 have c4: "\<exists>v. dump_bin_header host0 libs_world = Inr v \<and> cwd libs_world = []
         \<and> ''x86'' \<in> set archs
         \<and> read_file (fs v) [''native'', ''out'', ''x86'', ''libinit-ld.so''] = Inr ''CD''
         \<and> read_text host0 (fs v) [''native'', ''out'', ''generated'', ''x86_binaries.h'']
              = Inr ''constexpr unsigned char init_ld_xz[] = {\<newline>0x43,0x44,\<newline>};\<newline>''"
    by blast
  from c1 h4 c2 lits c4 show ?thesis by (iprover intro: conjI)
qed

theorem payload_round_trip_witness:
  "lzma_lossless host1
   \<and> xz host1 ''CD'' = ''ZCD''
   \<and> lzma_decompress host1 (xz host1 ''CD'') = Some ''CD''
   \<and> CHR ''{'' \<notin> set ''init_ld_xz''
   \<and> binary_dump ''CD'' ''init_ld_xz'' (xz host1) =
        ''constexpr unsigned char init_ld_xz[] = {\<newline>0x5A,0x43,0x44,\<newline>};\<newline>''
   \<and> array_bytes ''constexpr unsigned char init_ld_xz[] = {\<newline>0x5A,0x43,0x44,\<newline>};\<newline>'' = ''ZCD''
   \<and> (\<exists>v header_text. dump_bin_header host1 libs_world = Inr v \<and> cwd libs_world = []
         \<and> ''x86'' \<in> set archs
         \<and> read_file (fs v) [''native'', ''out'', ''x86'', ''libinit-ld.so''] = Inr ''CD''
         \<and> read_text host1 (fs v) [''native'', ''out'', ''generated'', ''x86_binaries.h'']
              = Inr header_text
         \<and> lzma_decompress host1 (array_bytes header_text) = Some ''CD'')"
proof -
  have h0: "lzma_lossless host1" by (simp add: lzma_lossless_def host1_def)
  have ev: "succeeds (dump_bin_header host1 libs_world)"
    by (simp add: succeeds_def dump_bin_header_def dump_bin_header_arch_def libs_world_def
          archs_def mkdir_parents_def make_dirs_def is_file_def read_file_def
          native_gen_path_def mkdir_def then_do_def write_if_diff_def locate_def Let_def
          path_exists_def write_text_def write_file_def log_def newline_out_def host1_posix)
  then obtain v where h1: "dump_bin_header host1 libs_world = Inr v"
    using succeedsE by blast
  have h2: "cwd libs_world = []" by (simp add: libs_world_def)
  have h3: "''x86'' \<in> set archs" by (simp add: archs_def)
  have h4: "CHR ''{'' \<notin> set ''init_ld_xz''" by simp
  note t = payload_round_trip [of host1 "''CD''" "''init_ld_xz''" libs_world v "''x86''"]
  have x: "xz host1 ''CD'' = ''ZCD''" by (simp add: xz_def host1_def)
  from t h0 have c1: "lzma_decompress host1 (xz host1 ''CD'') = Some ''CD''" by blast
  have d: "binary_dump ''CD'' ''init_ld_xz'' (xz host1) =
        ''constexpr unsigned char init_ld_xz[] = {\<newline>0x5A,0x43,0x44,\<newline>};\<newline>''"
    by (simp add: binary_dump_def x fmt_02X_def to_hex.simps digit_char_def)
  from t h4 have "array_bytes (binary_dump ''CD'' ''init_ld_xz'' (xz host1)) = xz host1 ''CD''"
    by blast
  then have c2: "array_bytes ''constexpr unsigned char init_ld_xz[] = {\<newline>0x5A,0x43,0x44,\<newline>};\<newline>'' = ''ZCD''"
    unfolding d x .
  from t h0 h1 h2 h3 obtain lib header_text where
    r: "read_file (fs v) [''native'', ''out'', ''x86'', ''libinit-ld.so''] = Inr lib"
    and l: "read_text host1 (fs v) [''native'', ''out'', ''generated'', ''x86'' @ ''_binaries.h'']
             = Inr header_text"
    and z: "lzma_decompress host1 (array_bytes header_text) = Some lib"
    by blast
  have r': "read_file (fs v) [''native'', ''out'', ''x86'', ''libinit-ld.so''] = Inr ''CD''"
    using h1
    by (auto simp: dump_bin_header_def dump_bin_header_arch_def libs_world_def
          archs_def mkdir_parents_def make_dirs_def is_file_def read_file_def
          native_gen_path_def mkdir_def then_do_def write_if_diff_def locate_def Let_def
          path_exists_def write_text_def write_file_def log_def newline_out_def host1_posix)
  with r have lib: "lib = ''CD''" by simp
  from l have l': "read_text host1 (fs v) [''native'', ''out'', ''generated'', ''x86_binaries.h'']
       = Inr header_text"
    by simp
  from h1 h2 h3 r' l' z lib have c3: "\<exists>v header_text. dump_bin_header host1 libs_world = Inr v \<and> cwd libs_world = []
         \<and> ''x86'' \<in> set archs
         \<and> read_file (fs v) [''native'', ''out'', ''x86'', ''libinit-ld.so''] = Inr ''CD''
         \<and> read_text host1 (fs v) [''native'', ''out'', ''generated'', ''x86_binaries.h'']
              = Inr header_text
         \<and> lzma_decompress host1 (array_bytes header_text) = Some ''CD''"
    by blast
  from h0 x c1 h4 d c2 c3 show ?thesis by (iprover intro: conjI)
qed


subsection \<open>Relocation\<close>

lemma locate_cwd: "cwd w' = cwd w \<Longrightarrow> locate w' p = locate w p"
  by (cases p) (simp_all add: locate_def)

lemma mv_total:
  "\<exists>w'. mv source dest w = Inr w' \<and> cwd w' = cwd w
        \<and> trace w' = trace w @ [Move (locate w source) (locate w dest)]"
  by (cases "shutil_move (fs w) (locate w source) (locate w dest)")
     (simp_all add: mv_def Let_def log_def)





lemma fold_mv:
  "\<exists>w'. fold (\<lambda>x r. then_do r (mv (s x) (d x))) xs (Inr w) = Inr w' \<and> cwd w' = cwd w
        \<and> trace w' = trace w @ map (\<lambda>x. Move (locate w (s x)) (locate w (d x))) xs"
proof (induction xs arbitrary: w)
  case Nil
  then show ?case by simp
next
  case (Cons x xs)
  from mv_total [of "s x" "d x" w] obtain u where u: "mv (s x) (d x) w = Inr u"
    and c: "cwd u = cwd w" and t: "trace u = trace w @ [Move (locate w (s x)) (locate w (d x))]"
    by blast
  from Cons.IH [of u] obtain w' where
    f: "fold (\<lambda>x r. then_do r (mv (s x) (d x))) xs (Inr u) = Inr w'"
    and c': "cwd w' = cwd u"
    and t': "trace w' = trace u @ map (\<lambda>x. Move (locate u (s x)) (locate u (d x))) xs"
    by blast
  have "fold (\<lambda>x r. then_do r (mv (s x) (d x))) (x # xs) (Inr w) = Inr w'"
    unfolding fold_then_do_Cons u then_do_Inr by (rule f)
  moreover have "trace w' = trace w @ map (\<lambda>x. Move (locate w (s x)) (locate w (d x))) (x # xs)"
    using t t' by (simp add: locate_cwd [OF c])
  ultimately show ?case using c c' by auto
qed

definition relocations_arch :: "path \<Rightarrow> string \<Rightarrow> event list" where
  "relocations_arch c arch =
     map (\<lambda>tgt. Move (resolve c [''native'', ''libs'', arch, tgt])
                      (resolve c [''native'', ''out'', arch, tgt]))
         (support_targets @ [''libinit-ld.so''])"

definition relocations :: "path \<Rightarrow> event list" where
  "relocations c = concat (map (relocations_arch c) archs)"

lemma relocate_arch_trace:
  "\<exists>w'. relocate_arch arch w = Inr w' \<and> cwd w' = cwd w
        \<and> trace w' = trace w @ relocations_arch (cwd w) arch"
  using fold_mv [of "\<lambda>tgt. Rel [''native'', ''libs'', arch, tgt]"
                    "\<lambda>tgt. Rel [''native'', ''out'', arch, tgt]"
                    "support_targets @ [''libinit-ld.so'']" w]
  by (simp add: relocate_arch_def relocations_arch_def locate_def)

lemma fold_relocate_arch:
  "\<exists>w'. fold (\<lambda>arch r. then_do r (relocate_arch arch)) xs (Inr w) = Inr w' \<and> cwd w' = cwd w
        \<and> trace w' = trace w @ concat (map (relocations_arch (cwd w)) xs)"
proof (induction xs arbitrary: w)
  case Nil
  then show ?case by simp
next
  case (Cons x xs)
  from relocate_arch_trace [of x w] obtain u where u: "relocate_arch x w = Inr u"
    and c: "cwd u = cwd w" and t: "trace u = trace w @ relocations_arch (cwd w) x"
    by blast
  from Cons.IH [of u] obtain w' where
    f: "fold (\<lambda>arch r. then_do r (relocate_arch arch)) xs (Inr u) = Inr w'"
    and c': "cwd w' = cwd u"
    and t': "trace w' = trace u @ concat (map (relocations_arch (cwd u)) xs)"
    by blast
  have "fold (\<lambda>arch r. then_do r (relocate_arch arch)) (x # xs) (Inr w) = Inr w'"
    unfolding fold_then_do_Cons u then_do_Inr by (rule f)
  moreover have "trace w' = trace w @ concat (map (relocations_arch (cwd w)) (x # xs))"
    using t t' c by simp
  ultimately show ?case using c c' by auto
qed

text \<open>The effect of the moves on the tree: each move that fails leaves the tree as it is.\<close>

definition mv_fs :: "path \<Rightarrow> path \<Rightarrow> path \<Rightarrow> node \<Rightarrow> node" where
  "mv_fs c s d t = (case shutil_move t (resolve c s) (resolve c d) of Inl e \<Rightarrow> t | Inr t' \<Rightarrow> t')"

definition relocate_fs :: "path \<Rightarrow> node \<Rightarrow> node" where
  "relocate_fs c t =
     fold (\<lambda>arch. fold (\<lambda>tgt. mv_fs c [''native'', ''libs'', arch, tgt] [''native'', ''out'', arch, tgt])
                       (support_targets @ [''libinit-ld.so''])) archs t"

lemma mv_fs:
  assumes "mv (Rel s) (Rel d) w = Inr w'"
  shows "fs w' = mv_fs (cwd w) s d (fs w) \<and> cwd w' = cwd w"
  using assms
  by (cases "shutil_move (fs w) (resolve (cwd w) s) (resolve (cwd w) d)")
     (auto simp: mv_def Let_def locate_def log_def mv_fs_def)

lemma fold_mv_fs:
  assumes "fold (\<lambda>x r. then_do r (mv (Rel (s x)) (Rel (d x)))) xs (Inr w) = Inr w'"
  shows "fs w' = fold (\<lambda>x. mv_fs (cwd w) (s x) (d x)) xs (fs w) \<and> cwd w' = cwd w"
  using assms
proof (induction xs arbitrary: w)
  case Nil
  then show ?case by simp
next
  case (Cons x xs)
  from Cons.prems obtain u where u: "mv (Rel (s x)) (Rel (d x)) w = Inr u"
    and rest: "fold (\<lambda>x r. then_do r (mv (Rel (s x)) (Rel (d x)))) xs (Inr u) = Inr w'"
    unfolding fold_then_do_Cons then_do_eq_Inr by blast
  from mv_fs [OF u] Cons.IH [OF rest] show ?case by simp
qed

lemma fold_relocate_arch_fs:
  assumes "fold (\<lambda>arch r. then_do r (relocate_arch arch)) xs (Inr w) = Inr w'"
  shows "fs w' = fold (\<lambda>arch. fold (\<lambda>tgt. mv_fs (cwd w) [''native'', ''libs'', arch, tgt]
                                                    [''native'', ''out'', arch, tgt])
                       (support_targets @ [''libinit-ld.so''])) xs (fs w)
         \<and> cwd w' = cwd w"
  using assms
proof (induction xs arbitrary: w)
  case Nil
  then show ?case by simp
next
  case (Cons x xs)
  from Cons.prems obtain u where u: "relocate_arch x w = Inr u"
    and rest: "fold (\<lambda>arch r. then_do r (relocate_arch arch)) xs (Inr u) = Inr w'"
    unfolding fold_then_do_Cons then_do_eq_Inr by blast
  from u have "fs u = fold (\<lambda>tgt. mv_fs (cwd w) [''native'', ''libs'', x, tgt] [''native'', ''out'', x, tgt])
                       (support_targets @ [''libinit-ld.so'']) (fs w) \<and> cwd u = cwd w"
    unfolding relocate_arch_def by (rule fold_mv_fs)
  with Cons.IH [OF rest] show ?case by simp
qed

definition ndk_command :: "host \<Rightarrow> string \<Rightarrow> string" where
  "ndk_command h flags =
     path_str (is_windows h) (ndk_build h)
       @ '' NDK_PROJECT_PATH=. NDK_APPLICATION_MK=src/Application.mk '' @ flags
       @ '' -j'' @ str_nat (cpu_count h)"

lemma resolve_native: "resolve c [''native''] = c @ [''native'']"
  by simp

lemma resolve_native_up: "resolve (c @ [''native'']) [''..''] = c"
  by simp

lemma chdir_dir:
  "is_dir (fs w) (resolve (cwd w) p) \<Longrightarrow> chdir p w = Inr (w\<lparr>cwd := resolve (cwd w) p\<rparr>)"
  by (auto simp: chdir_def Let_def is_dir_def split: option.splits node.splits)

lemma chdir_not_dir:
  "\<not> is_dir (fs w) (resolve (cwd w) p) \<Longrightarrow>
     chdir p w = Inl (if path_exists (fs w) (resolve (cwd w) p) then NotADirectoryError
                      else missing_kind (fs w) (resolve (cwd w) p))"
  by (auto simp: chdir_def Let_def is_dir_def path_exists_def split: option.splits node.splits)

lemma chdir_Inr:
  "chdir p w = Inr w' \<Longrightarrow> is_dir (fs w) (resolve (cwd w) p) \<and> w' = w\<lparr>cwd := resolve (cwd w) p\<rparr>"
  by (auto simp: chdir_def Let_def is_dir_def split: option.splits node.splits)

text \<open>
  The three conditions of a successful \<open>run_ndk_build\<close>: \<open>native\<close> is a directory of the
  working directory, \<open>ndk-build\<close> exits with status 0, and the working directory is still
  a directory when the process has ended.
\<close>

definition ndk_proc :: "host \<Rightarrow> string \<Rightarrow> world \<Rightarrow> int \<times> node" where
  "ndk_proc h flags w =
     run_proc h (Shell (ndk_command h flags)) (cwd w @ [''native'']) (fs w)"

lemma run_ndk_build_no_native:
  assumes "\<not> is_dir (fs w) (cwd w @ [''native''])"
  shows "run_ndk_build h flags w =
           Inl (if path_exists (fs w) (cwd w @ [''native'']) then NotADirectoryError
                else missing_kind (fs w) (cwd w @ [''native'']))"
  using assms chdir_not_dir [of w "[''native'']"]
  by (simp add: run_ndk_build_def then_do_Inl)

lemma run_ndk_build_unfold:
  assumes "is_dir (fs w) (cwd w @ [''native''])"
  shows "run_ndk_build h flags w =
           (if fst (ndk_proc h flags w) \<noteq> 0 then Inl (SystemExit ''Build binary failed!'')
            else then_do
                   (chdir [''..'']
                      (w\<lparr>cwd := cwd w @ [''native''],
                         trace := trace w @ [Exec (Shell (ndk_command h flags))
                                               (cwd w @ [''native''])],
                         fs := snd (ndk_proc h flags w)\<rparr>))
                   (\<lambda>w2. fold (\<lambda>arch r. then_do r (relocate_arch arch)) archs (Inr w2)))"
  using assms chdir_dir [of w "[''native'']"]
  by (simp add: run_ndk_build_def then_do_Inr Let_def system_def ndk_command_def error_def
        log_def ndk_proc_def)


lemma run_ndk_build_trace:
  assumes "is_dir (fs w) (cwd w @ [''native''])" and "fst (ndk_proc h flags w) = 0"
    and "is_dir (snd (ndk_proc h flags w)) (cwd w)"
  shows "\<exists>w'. run_ndk_build h flags w = Inr w' \<and> cwd w' = cwd w
           \<and> trace w' = trace w @ Exec (Shell (ndk_command h flags)) (cwd w @ [''native''])
                                   # relocations (cwd w)
           \<and> fs w' = relocate_fs (cwd w) (snd (ndk_proc h flags w))"
proof -
  let ?cmd = "ndk_command h flags"
  let ?w1 = "w\<lparr>cwd := cwd w @ [''native''],
                trace := trace w @ [Exec (Shell ?cmd) (cwd w @ [''native''])],
                fs := snd (ndk_proc h flags w)\<rparr>"
  let ?w2 = "?w1\<lparr>cwd := cwd w\<rparr>"
  have up: "chdir [''..''] ?w1 = Inr ?w2"
    using assms(3) chdir_dir [of ?w1 "[''..'']"] by simp
  from fold_relocate_arch [of archs ?w2] obtain w' where
    f: "fold (\<lambda>arch r. then_do r (relocate_arch arch)) archs (Inr ?w2) = Inr w'"
    and c: "cwd w' = cwd ?w2"
    and t: "trace w' = trace ?w2 @ concat (map (relocations_arch (cwd ?w2)) archs)"
    by blast
  have r: "run_ndk_build h flags w = Inr w'"
    using assms(2) f by (simp add: run_ndk_build_unfold [OF assms(1)] up then_do_Inr)
  moreover have "trace w' = trace w @ Exec (Shell ?cmd) (cwd w @ [''native'']) # relocations (cwd w)"
    unfolding t by (simp add: relocations_def)
  moreover from fold_relocate_arch_fs [OF f]
  have "fs w' = relocate_fs (cwd w) (snd (ndk_proc h flags w))"
    by (simp add: relocate_fs_def)
  ultimately show ?thesis using c by auto
qed

lemma run_ndk_build_Inr:
  assumes "run_ndk_build h flags w = Inr w'"
  shows "is_dir (fs w) (cwd w @ [''native'']) \<and> fst (ndk_proc h flags w) = 0
         \<and> is_dir (snd (ndk_proc h flags w)) (cwd w)"
proof -
  have n: "is_dir (fs w) (cwd w @ [''native''])"
    using assms run_ndk_build_no_native [of w h flags] by (cases "is_dir (fs w) (cwd w @ [''native''])") simp_all
  have z: "fst (ndk_proc h flags w) = 0"
    using assms by (simp add: run_ndk_build_unfold [OF n] split: if_splits)
  let ?w1 = "w\<lparr>cwd := cwd w @ [''native''],
                trace := trace w @ [Exec (Shell (ndk_command h flags)) (cwd w @ [''native''])],
                fs := snd (ndk_proc h flags w)\<rparr>"
  from assms z obtain w2 where "chdir [''..''] ?w1 = Inr w2"
    by (auto simp: run_ndk_build_unfold [OF n] then_do_eq_Inr)
  from chdir_Inr [OF this] have "is_dir (snd (ndk_proc h flags w)) (cwd w)" by simp
  with n z show ?thesis by simp
qed

lemma run_ndk_build_fs:
  assumes "run_ndk_build h flags w = Inr w'"
  shows "fs w' = relocate_fs (cwd w) (snd (ndk_proc h flags w))"
proof -
  note c = run_ndk_build_Inr [OF assms]
  from c run_ndk_build_trace [of w h flags] assms show ?thesis by auto
qed

lemma relocations_explicit:
  "relocations c =
     concat (map (\<lambda>arch. map (\<lambda>tgt. Move (c @ [''native'', ''libs'', arch, tgt])
                                         (c @ [''native'', ''out'', arch, tgt]))
                    [''magisk'', ''magiskinit'', ''magiskboot'', ''magiskpolicy'', ''busybox'',
                     ''resetprop'', ''libinit-ld.so''])
               [''armeabi-v7a'', ''x86'', ''arm64-v8a'', ''x86_64''])"
  by (simp add: relocations_def relocations_arch_def archs_def support_targets_def
                default_targets_def)








subsection \<open>The steps of a build\<close>

text \<open>
  The steps of a run are the external processes and the header generations of its log,
  in order; messages, moves and the writes themselves are left out.
\<close>

definition is_step :: "event \<Rightarrow> bool" where
  "is_step e = (case e of Exec cmd dir \<Rightarrow> True | WriteIfDiff p body \<Rightarrow> True | _ \<Rightarrow> False)"

definition steps :: "event list \<Rightarrow> event list" where
  "steps tr = filter is_step tr"

lemma steps_append: "steps (xs @ ys) = steps xs @ steps ys"
  by (simp add: steps_def)

lemma steps_simps:
  "steps [] = []"
  "steps (Exec cmd dir # tr) = Exec cmd dir # steps tr"
  "steps (WriteIfDiff p body # tr) = WriteIfDiff p body # steps tr"
  "steps (Header msg # tr) = steps tr"
  "steps (Move s d # tr) = steps tr"
  "steps (FileWrite p body # tr) = steps tr"
  "steps (Remove p # tr) = steps tr"
  "steps (RmTree p # tr) = steps tr"
  by (simp_all add: steps_def is_step_def)

lemma steps_moves: "steps (map (\<lambda>x. Move (s x) (d x)) xs) = []"
  by (induction xs) (simp_all add: steps_simps)

lemma steps_relocations: "steps (relocations c) = []"
  by (simp add: relocations_explicit steps_simps)

text \<open>The command line and the environment of one \<open>cargo build\<close>.\<close>

definition cargo_env :: "host \<Rightarrow> (string \<times> string) list" where
  "cargo_env h =
     [(''PATH'', path_str (is_windows h) (rust_bin h)
                  @ (if is_windows h then '';'' else '':'') @ environ_PATH h),
      (''CARGO_BUILD_RUSTC'', path_str (is_windows h) (rust_bin h @ [''rustc'' @ EXE_EXT h])),
      (''RUSTFLAGS'', ''-Clinker-plugin-lto -Zthreads='' @ str_nat (min 8 (cpu_count h)))]"

definition cargo_exec :: "host \<Rightarrow> args \<Rightarrow> string \<Rightarrow> string \<Rightarrow> path \<Rightarrow> event" where
  "cargo_exec h a tgt rust_triple dir =
     Exec (Argv (path_str (is_windows h) (cargo h)
                  # [''build'', ''-p'', tgt]
                  @ (if release a then [''-r''] else [])
                  @ (if \<not> verbose a then [''-q''] else [])
                  @ [''--target'', rust_triple])
                (cargo_env h)) dir"

definition cargo_cmds :: "args \<Rightarrow> string list" where
  "cargo_cmds a = [''build'', ''-p'', []] @ (if release a then [''-r''] else [])
                    @ (if \<not> verbose a then [''-q''] else []) @ [''--target'', []]"

lemma cargo_cmds_update:
  "(cargo_cmds a)[length (cargo_cmds a) - 1 := rt, 2 := tgt] =
     [''build'', ''-p'', tgt] @ (if release a then [''-r''] else [])
       @ (if \<not> verbose a then [''-q''] else []) @ [''--target'', rt]"
  by (simp add: cargo_cmds_def)

lemma cargo_targets_trace:
  assumes "cargo_targets h cmds triple tgts w = Inr w'"
  shows "cwd w' = cwd w
         \<and> trace w' = trace w @ map (\<lambda>t. Exec (Argv (path_str (is_windows h) (cargo h) # cmds[2 := t])
                                               (cargo_env h)) (cwd w)) tgts"
  using assms
proof (induction tgts arbitrary: w)
  case Nil
  then show ?case by simp
next
  case (Cons t ts)
  let ?proc = "run_cargo h (cmds[2 := t]) triple w"
  from Cons.prems have rest: "cargo_targets h cmds triple ts (snd ?proc) = Inr w'"
    by (simp add: Let_def error_def split: if_splits)
  have c: "cwd (snd ?proc) = cwd w"
    and t: "trace (snd ?proc) = trace w @ [Exec (Argv (path_str (is_windows h) (cargo h) # cmds[2 := t])
                                               (cargo_env h)) (cwd w)]"
    by (simp_all add: run_cargo_def execv_def Let_def log_def cargo_env_def)
  from Cons.IH [OF rest] c t show ?case by simp
qed

text \<open>An iteration over a set visits every member once.\<close>

lemma py_iter_set: "set (py_iter h s) = set s"
  by (simp add: py_iter_def)

lemma py_iter_distinct: "distinct (py_iter h s) = distinct s"
  by (simp add: py_iter_def)

lemma py_iter_length: "length (py_iter h s) = length s"
  by (simp add: py_iter_def)

lemma py_iter_Nil: "py_iter h [] = []"
  by (simp add: py_iter_def)

lemma py_iter_single: "py_iter h [x] = [x]"
  by (simp add: py_iter_def)

definition rust_triple_of :: "string \<Rightarrow> string" where
  "rust_triple_of triple =
     (if startswith triple ''armv7'' then ''thumbv7neon-linux-androideabi'' else triple)"

definition cargo_steps :: "host \<Rightarrow> args \<Rightarrow> string list \<Rightarrow> path \<Rightarrow> event list" where
  "cargo_steps h a targets dir =
     concat (map (\<lambda>triple. map (\<lambda>t. cargo_exec h a t (rust_triple_of triple) dir) targets) triples)"

lemma fold_mv_trace:
  assumes "fold (\<lambda>x r. then_do r (mv (s x) (d x))) xs (Inr w) = Inr w'"
  shows "cwd w' = cwd w \<and> steps (trace w') = steps (trace w)"
proof -
  from fold_mv [of s d xs w] assms
  have "cwd w' = cwd w" and "trace w' = trace w @ map (\<lambda>x. Move (locate w (s x)) (locate w (d x))) xs"
    by auto
  then show ?thesis by (simp add: steps_append steps_moves)
qed

lemma cargo_arch_steps:
  assumes "cargo_arch h (cargo_cmds a) rust_out targets at w = Inr w'"
  shows "cwd w' = cwd w
         \<and> steps (trace w') = steps (trace w)
              @ map (\<lambda>t. cargo_exec h a t (rust_triple_of (snd at)) (cwd w)) targets"
proof -
  let ?rt = "rust_triple_of (snd at)"
  let ?cmds = "(cargo_cmds a)[length (cargo_cmds a) - 1 := ?rt]"
  from assms obtain w1 t where
    ct: "cargo_targets h ?cmds (snd at) targets w = Inr w1"
    and f: "fold (\<lambda>tgt r. then_do r
                    (mv (Rel [''target'', ?rt, rust_out, ''lib'' @ tgt @ ''.a''])
                        (Rel [''..'', ''out'', fst at, ''lib'' @ tgt @ ''-rs.a''])))
              targets (Inr (w1\<lparr>fs := t\<rparr>)) = Inr w'"
    unfolding cargo_arch_def Let_def rust_triple_of_def then_do_eq_Inr by blast
  note c1 = cargo_targets_trace [OF ct]
  note c2 = fold_mv_trace [OF f]
  have "map (\<lambda>t. Exec (Argv (path_str (is_windows h) (cargo h) # ?cmds[2 := t]) (cargo_env h)) (cwd w)) targets
      = map (\<lambda>t. cargo_exec h a t ?rt (cwd w)) targets"
    by (simp only: cargo_exec_def cargo_cmds_update)
  with c1 c2 show ?thesis by (simp add: steps_append steps_def is_step_def)
qed

lemma fold_cargo_arch_steps:
  assumes "fold (\<lambda>at r. then_do r (cargo_arch h (cargo_cmds a) rust_out targets at)) ats (Inr w) = Inr w'"
  shows "cwd w' = cwd w
         \<and> steps (trace w') = steps (trace w)
              @ concat (map (\<lambda>at. map (\<lambda>t. cargo_exec h a t (rust_triple_of (snd at)) (cwd w)) targets) ats)"
  using assms
proof (induction ats arbitrary: w)
  case Nil
  then show ?case by simp
next
  case (Cons at ats)
  from Cons.prems obtain u where u: "cargo_arch h (cargo_cmds a) rust_out targets at w = Inr u"
    and rest: "fold (\<lambda>at r. then_do r (cargo_arch h (cargo_cmds a) rust_out targets at)) ats (Inr u) = Inr w'"
    unfolding fold_then_do_Cons then_do_eq_Inr by blast
  from cargo_arch_steps [OF u] Cons.IH [OF rest] show ?case by simp
qed

lemma run_cargo_build_steps:
  assumes "run_cargo_build h a w = Inr w'" and "target a = Some tgt"
  shows "cwd w' = cwd w
         \<and> steps (trace w') = steps (trace w)
              @ cargo_steps h a (py_iter h (cargo_target_set tgt)) (cwd w)"
proof (cases "cargo_target_set tgt = []")
  case True
  with assms have "\<exists>t. w' = w\<lparr>fs := t\<rparr>"
    by (auto simp: run_cargo_build_def then_do_eq_Inr Let_def)
  with True show ?thesis by (auto simp: cargo_steps_def py_iter_Nil)
next
  case False
  with assms obtain t where
    f: "fold (\<lambda>at r. then_do r (cargo_arch h (cargo_cmds a)
                (if release a then ''release'' else ''debug'')
                (py_iter h (cargo_target_set tgt)) at))
          (zip archs triples) (Inr (w\<lparr>fs := t\<rparr>)) = Inr w'"
    by (auto simp: run_cargo_build_def then_do_eq_Inr Let_def cargo_cmds_def)
  have "map snd (zip archs triples) = triples" by (simp add: archs_def triples_def)
  then have "concat (map (\<lambda>at. map (\<lambda>t. cargo_exec h a t (rust_triple_of (snd at)) (cwd w))
                             (py_iter h (cargo_target_set tgt))) (zip archs triples))
      = cargo_steps h a (py_iter h (cargo_target_set tgt)) (cwd w)"
    by (simp add: cargo_steps_def archs_def triples_def)
  with fold_cargo_arch_steps [OF f] show ?thesis by simp
qed

lemma write_if_diff_steps:
  assumes "write_if_diff h f body w = Inr w'"
  shows "cwd w' = cwd w \<and> steps (trace w') = steps (trace w) @ [WriteIfDiff (locate w f) body]"
proof (cases "read_text h (fs w) (locate w f) = Inr body")
  case True
  from write_if_diff_same [OF this] assms have "w' = log (WriteIfDiff (locate w f) body) w"
    by simp
  then show ?thesis by (simp add: log_def steps_append steps_simps)
next
  case False
  with assms obtain t' where
    w': "w' = log (FileWrite (locate w f) body)
                    ((log (WriteIfDiff (locate w f) body) w)\<lparr>fs := t'\<rparr>)"
    by (cases "read_text h (fs w) (locate w f)")
       (auto simp: write_if_diff_def Let_def then_do_def split: if_splits sum.splits)
  then show ?thesis by (simp add: log_def steps_append steps_simps)
qed

lemma dump_flag_header_steps:
  assumes "dump_flag_header h cfg a w = Inr w'"
  shows "cwd w' = cwd w
         \<and> steps (trace w') = steps (trace w)
              @ [WriteIfDiff [''native'', ''out'', ''generated'', ''flags.h''] (flag_txt cfg a)]"
proof -
  from assms obtain t where
    wr: "write_if_diff h (Abs (native_gen_path @ [''flags.h''])) (flag_txt cfg a) (w\<lparr>fs := t\<rparr>)
           = Inr w'"
    by (auto simp: dump_flag_header_def then_do_eq_Inr)
  from write_if_diff_steps [OF wr] show ?thesis
    by (simp add: locate_Abs native_gen_path_def)
qed

lemma run_ndk_build_steps:
  assumes "run_ndk_build h flags w = Inr w'"
  shows "cwd w' = cwd w
         \<and> steps (trace w') = steps (trace w)
              @ [Exec (Shell (ndk_command h flags)) (cwd w @ [''native''])]"
proof -
  note c = run_ndk_build_Inr [OF assms]
  from c run_ndk_build_trace [of w h flags] assms show ?thesis
    by (auto simp: steps_append steps_simps steps_relocations)
qed

definition payload_steps :: "host \<Rightarrow> string list \<Rightarrow> string list \<Rightarrow> event list" where
  "payload_steps h xs libs =
     map (\<lambda>al. WriteIfDiff [''native'', ''out'', ''generated'', fst al @ ''_binaries.h'']
                  (binary_dump (snd al) ''init_ld_xz'' (xz h)))
       (zip xs libs)"

lemma dump_bin_header_arch_steps:
  assumes "dump_bin_header_arch h arch w = Inr w'"
  shows "cwd w' = cwd w
         \<and> (\<exists>lib. steps (trace w') = steps (trace w)
                @ [WriteIfDiff [''native'', ''out'', ''generated'', arch @ ''_binaries.h'']
                     (binary_dump lib ''init_ld_xz'' (xz h))])"
proof -
  from assms obtain lib where
    wr: "write_if_diff h (Abs (native_gen_path @ [arch @ ''_binaries.h'']))
           (binary_dump lib ''init_ld_xz'' (xz h)) w = Inr w'"
    by (auto simp: dump_bin_header_arch_def then_do_eq_Inr)
  from write_if_diff_steps [OF wr] show ?thesis
    by (auto simp: locate_Abs native_gen_path_def)
qed

lemma fold_dump_bin_header_steps:
  assumes "fold (\<lambda>arch r. then_do r (dump_bin_header_arch h arch)) xs (Inr w) = Inr w'"
  shows "cwd w' = cwd w
         \<and> (\<exists>libs. length libs = length xs
                \<and> steps (trace w') = steps (trace w) @ payload_steps h xs libs)"
  using assms
proof (induction xs arbitrary: w)
  case Nil
  then show ?case by (simp add: payload_steps_def)
next
  case (Cons x xs)
  from Cons.prems obtain u where u: "dump_bin_header_arch h x w = Inr u"
    and rest: "fold (\<lambda>arch r. then_do r (dump_bin_header_arch h arch)) xs (Inr u) = Inr w'"
    unfolding fold_then_do_Cons then_do_eq_Inr by blast
  from dump_bin_header_arch_steps [OF u] obtain lib where c: "cwd u = cwd w"
    and t: "steps (trace u) = steps (trace w)
                @ [WriteIfDiff [''native'', ''out'', ''generated'', x @ ''_binaries.h'']
                     (binary_dump lib ''init_ld_xz'' (xz h))]"
    by blast
  from Cons.IH [OF rest] obtain libs where c': "cwd w' = cwd u" and l: "length libs = length xs"
    and t': "steps (trace w') = steps (trace u) @ payload_steps h xs libs"
    by blast
  have "length (lib # libs) = length (x # xs)" using l by simp
  moreover have "steps (trace w') = steps (trace w) @ payload_steps h (x # xs) (lib # libs)"
    using t t' by (simp add: payload_steps_def)
  ultimately show ?case using c c' by metis
qed

lemma dump_bin_header_steps:
  assumes "dump_bin_header h w = Inr w'"
  shows "cwd w' = cwd w
         \<and> (\<exists>libs. length libs = 4 \<and> steps (trace w') = steps (trace w) @ payload_steps h archs libs)"
proof -
  from assms obtain t where
    f: "fold (\<lambda>arch r. then_do r (dump_bin_header_arch h arch)) archs (Inr (w\<lparr>fs := t\<rparr>)) = Inr w'"
    by (auto simp: dump_bin_header_def then_do_eq_Inr)
  have "length archs = 4" by (simp add: archs_def)
  with fold_dump_bin_header_steps [OF f] show ?thesis by simp
qed

definition elf_cleaner_path :: "host \<Rightarrow> path" where
  "elf_cleaner_path h =
     (if is_windows h then [''tools'', ''elf-cleaner.exe'']
      else [''native'', ''out'', ''elf-cleaner''])"

definition clean_elf_steps :: "host \<Rightarrow> world \<Rightarrow> event list" where
  \<open>clean_elf_steps h w =
     (if \<not> is_windows h \<and> \<not> path_exists (fs w) (locate w (Rel (elf_cleaner_path h)))
      then [Exec (Argv [''gcc'',
                     ''-DPACKAGE_NAME="termux-elf-cleaner"'',
                     ''-DPACKAGE_VERSION="2.1.1"'',
                     ''-DCOPYRIGHT="Copyright (C) 2022 Termux."'',
                     ''tools/termux-elf-cleaner/elf-cleaner.cpp'',
                     ''tools/termux-elf-cleaner/arghandling.c'',
                     ''-o'',
                     path_str (is_windows h) (elf_cleaner_path h)] []) (cwd w)]
      else [])
     @ [Exec (Argv ([path_str (is_windows h) (elf_cleaner_path h), ''--api-level'', ''23'']
                @ concat (map (\<lambda>arch. map (\<lambda>bin. path_str (is_windows h) [''native'', ''out'', arch, bin])
                                         [''magisk'', ''magiskpolicy'']) archs)) []) (cwd w)]\<close>

lemma clean_elf_steps:
  "cwd (clean_elf h w) = cwd w
   \<and> steps (trace (clean_elf h w)) = steps (trace w) @ clean_elf_steps h w"
  by (simp add: clean_elf_def clean_elf_steps_def elf_cleaner_path_def Let_def execv_def log_def
                steps_append steps_simps)

definition ndk_step :: "host \<Rightarrow> string \<Rightarrow> event" where
  "ndk_step h flags = Exec (Shell (ndk_command h flags)) [''native'']"

lemma optional_ndk_steps:
  assumes "(if c then run_ndk_build h flags w else Inr w) = Inr w'" and "cwd w = []"
  shows "cwd w' = [] \<and> steps (trace w') = steps (trace w) @ (if c then [ndk_step h flags] else [])"
proof (cases c)
  case True
  with assms(1) have "run_ndk_build h flags w = Inr w'" by simp
  from run_ndk_build_steps [OF this] assms(2) True show ?thesis by (simp add: ndk_step_def)
next
  case False
  with assms show ?thesis by simp
qed

lemma optional_payload_steps:
  assumes "(if c then dump_bin_header h w else Inr w) = Inr w'" and "cwd w = []"
  shows "cwd w' = []
         \<and> (\<exists>libs. length libs = 4
               \<and> steps (trace w') = steps (trace w) @ (if c then payload_steps h archs libs else []))"
proof (cases c)
  case True
  with assms(1) have "dump_bin_header h w = Inr w'" by simp
  from dump_bin_header_steps [OF this] assms(2) True show ?thesis by simp
next
  case False
  have "length (replicate 4 ([]::string)) = 4" by simp
  then have "\<exists>libs::string list. length libs = 4" by blast
  with False assms show ?thesis by simp
qed

lemma build_selected_steps:
  assumes "build_selected h cfg a tgt w = Inr w'" and "target a = Some tgt" and "cwd w = []"
  shows "cwd w' = []
    \<and> (\<exists>libs w7. length libs = 4 \<and> cwd w7 = []
        \<and> steps (trace w') = steps (trace w)
            @ cargo_steps h a (py_iter h (cargo_target_set tgt)) [''native'', ''src'']
            @ [WriteIfDiff [''native'', ''out'', ''generated'', ''flags.h''] (flag_txt cfg a)]
            @ (if first_pass_flag tgt \<noteq> [] then [ndk_step h (first_pass_flag tgt)] else [])
            @ (if ''magiskinit'' \<in> set tgt then payload_steps h archs libs else [])
            @ (if second_pass_flag tgt \<noteq> []
               then [ndk_step h (second_pass_flag tgt @ '' B_CRT0=1'')] else [])
            @ (if clean_wanted tgt then clean_elf_steps h w7 else [])
            @ (if ''busybox'' \<in> set tgt then [ndk_step h ''B_BB=1''] else []))"
proof -
  let ?w1 = "header (''* Building binaries: '' @ join '' '' tgt) w"
  from assms(1) obtain w2 w3 w3' w4 w5 w6 w7 where
    s2: "chdir [''native'', ''src''] ?w1 = Inr w2"
    and s3: "run_cargo_build h a w2 = Inr w3"
    and s3': "chdir [''..'', ''..''] w3 = Inr w3'"
    and s4: "dump_flag_header h cfg a w3' = Inr w4"
    and s5: "(if first_pass_flag tgt \<noteq> [] then run_ndk_build h (first_pass_flag tgt) w4 else Inr w4) = Inr w5"
    and s6: "(if ''magiskinit'' \<in> set tgt then dump_bin_header h w5 else Inr w5) = Inr w6"
    and s7: "(if second_pass_flag tgt \<noteq> []
              then run_ndk_build h (second_pass_flag tgt @ '' B_CRT0=1'') w6 else Inr w6) = Inr w7"
    and s8: "(if ''busybox'' \<in> set tgt
              then run_ndk_build h ''B_BB=1'' (if clean_wanted tgt then clean_elf h w7 else w7)
              else Inr (if clean_wanted tgt then clean_elf h w7 else w7)) = Inr w'"
    unfolding build_selected_def Let_def then_do_eq_Inr by blast
  from chdir_Inr [OF s2]
  have c2: "cwd w2 = [''native'', ''src'']" and t2: "steps (trace w2) = steps (trace w)"
    using assms(3) by (simp_all add: header_def log_def steps_append steps_simps)
  from run_cargo_build_steps [OF s3 assms(2)] c2 t2
  have c3: "cwd w3 = [''native'', ''src'']"
    and t3: "steps (trace w3) = steps (trace w)
               @ cargo_steps h a (py_iter h (cargo_target_set tgt)) [''native'', ''src'']"
    by simp_all
  from chdir_Inr [OF s3']
  have c3': "cwd w3' = []" and t3': "trace w3' = trace w3"
    using c3 by simp_all
  from dump_flag_header_steps [OF s4] c3' t3' t3
  have c4: "cwd w4 = []"
    and t4: "steps (trace w4) = steps (trace w)
              @ cargo_steps h a (py_iter h (cargo_target_set tgt)) [''native'', ''src'']
              @ [WriteIfDiff [''native'', ''out'', ''generated'', ''flags.h''] (flag_txt cfg a)]"
    by simp_all
  from optional_ndk_steps [OF s5 c4]
  have c5: "cwd w5 = []"
    and t5: "steps (trace w5) = steps (trace w4)
              @ (if first_pass_flag tgt \<noteq> [] then [ndk_step h (first_pass_flag tgt)] else [])"
    by simp_all
  from optional_payload_steps [OF s6 c5] obtain libs where c6: "cwd w6 = []"
    and l: "length libs = 4"
    and t6: "steps (trace w6) = steps (trace w5)
              @ (if ''magiskinit'' \<in> set tgt then payload_steps h archs libs else [])"
    by blast
  from optional_ndk_steps [OF s7 c6]
  have c7: "cwd w7 = []"
    and t7: "steps (trace w7) = steps (trace w6)
              @ (if second_pass_flag tgt \<noteq> []
                 then [ndk_step h (second_pass_flag tgt @ '' B_CRT0=1'')] else [])"
    by simp_all
  let ?w8 = "if clean_wanted tgt then clean_elf h w7 else w7"
  have c8: "cwd ?w8 = []"
    and t8: "steps (trace ?w8) = steps (trace w7) @ (if clean_wanted tgt then clean_elf_steps h w7 else [])"
    using c7 clean_elf_steps [of h w7] by simp_all
  from s8 have s8': "(if ''busybox'' \<in> set tgt then run_ndk_build h ''B_BB=1'' ?w8 else Inr ?w8) = Inr w'"
    by simp
  from optional_ndk_steps [OF s8' c8]
  have c9: "cwd w' = []"
    and t9: "steps (trace w') = steps (trace ?w8)
              @ (if ''busybox'' \<in> set tgt then [ndk_step h ''B_BB=1''] else [])"
    by simp_all
  have "steps (trace w') = steps (trace w)
            @ cargo_steps h a (py_iter h (cargo_target_set tgt)) [''native'', ''src'']
            @ [WriteIfDiff [''native'', ''out'', ''generated'', ''flags.h''] (flag_txt cfg a)]
            @ (if first_pass_flag tgt \<noteq> [] then [ndk_step h (first_pass_flag tgt)] else [])
            @ (if ''magiskinit'' \<in> set tgt then payload_steps h archs libs else [])
            @ (if second_pass_flag tgt \<noteq> []
               then [ndk_step h (second_pass_flag tgt @ '' B_CRT0=1'')] else [])
            @ (if clean_wanted tgt then clean_elf_steps h w7 else [])
            @ (if ''busybox'' \<in> set tgt then [ndk_step h ''B_BB=1''] else [])"
    unfolding t9 t8 t7 t6 t5 t4 by simp
  with c9 l c7 show ?thesis by blast
qed

text \<open>
  A host whose \<open>ndk-build\<close> leaves a \<open>libinit-ld.so\<close> for each architecture under
  \<open>native/libs\<close>, and a project tree with nothing built yet.
\<close>

definition built_libs :: node where
  "built_libs =
     Dir [(''armeabi-v7a'', Dir [(''libinit-ld.so'', File False ''AB'')]),
          (''x86'', Dir [(''libinit-ld.so'', File False ''CD'')]),
          (''arm64-v8a'', Dir [(''libinit-ld.so'', File False ''EF'')]),
          (''x86_64'', Dir [(''libinit-ld.so'', File False ''GH'')])]"

definition toolchain :: "cmdline \<Rightarrow> path \<Rightarrow> node \<Rightarrow> int \<times> node" where
  "toolchain cmd dir t =
     (case cmd of
        Argv argv env \<Rightarrow> (0, t)
      | Shell s \<Rightarrow>
          (case put t [''native'', ''libs''] built_libs of
             None \<Rightarrow> (1, t)
           | Some t' \<Rightarrow> (0, t')))"

definition host_tc :: host where
  "host_tc = host0\<lparr>run_proc := toolchain\<rparr>"

definition fresh_world :: world where
  "fresh_world = \<lparr>fs = Dir [(''native'', Dir [(''src'', Dir [])])], cwd = [], trace = []\<rparr>"

subsection \<open>A run for \<open>magiskinit\<close>\<close>

definition tree_cargo :: node where
  "tree_cargo = Dir [(''native'', Dir [(''src'', Dir []),
       (''out'', Dir [(''armeabi-v7a'', Dir []), (''x86'', Dir []), (''arm64-v8a'', Dir []),
                      (''x86_64'', Dir [])])])]"

definition tree_flags :: node where
  "tree_flags = Dir [(''native'', Dir [(''src'', Dir []),
       (''out'', Dir [(''armeabi-v7a'', Dir []), (''x86'', Dir []), (''arm64-v8a'', Dir []),
                      (''x86_64'', Dir []),
                      (''generated'', Dir [(''flags.h'', File False (flag_txt config0 args0))])])])]"

definition tree_preload :: node where
  "tree_preload = Dir [(''native'', Dir [(''src'', Dir []),
       (''out'', Dir [(''armeabi-v7a'', Dir [(''libinit-ld.so'', File False ''AB'')]),
                      (''x86'', Dir [(''libinit-ld.so'', File False ''CD'')]),
                      (''arm64-v8a'', Dir [(''libinit-ld.so'', File False ''EF'')]),
                      (''x86_64'', Dir [(''libinit-ld.so'', File False ''GH'')]),
                      (''generated'', Dir [(''flags.h'', File False (flag_txt config0 args0))])]),
       (''libs'', Dir [(''armeabi-v7a'', Dir []), (''x86'', Dir []), (''arm64-v8a'', Dir []),
                      (''x86_64'', Dir [])])])]"

definition tree_payload :: node where
  "tree_payload = Dir [(''native'', Dir [(''src'', Dir []),
       (''out'', Dir [(''armeabi-v7a'', Dir [(''libinit-ld.so'', File False ''AB'')]),
                      (''x86'', Dir [(''libinit-ld.so'', File False ''CD'')]),
                      (''arm64-v8a'', Dir [(''libinit-ld.so'', File False ''EF'')]),
                      (''x86_64'', Dir [(''libinit-ld.so'', File False ''GH'')]),
                      (''generated'', Dir [(''flags.h'', File False (flag_txt config0 args0)),
                         (''armeabi-v7a_binaries.h'', File False (binary_dump ''AB'' ''init_ld_xz'' (xz host_tc))),
                         (''x86_binaries.h'', File False (binary_dump ''CD'' ''init_ld_xz'' (xz host_tc))),
                         (''arm64-v8a_binaries.h'', File False (binary_dump ''EF'' ''init_ld_xz'' (xz host_tc))),
                         (''x86_64_binaries.h'', File False (binary_dump ''GH'' ''init_ld_xz'' (xz host_tc)))])]),
       (''libs'', Dir [(''armeabi-v7a'', Dir []), (''x86'', Dir []), (''arm64-v8a'', Dir []),
                      (''x86_64'', Dir [])])])]"

lemma run_cargo_stage:
  assumes "fs w = fs fresh_world" and "cwd w = [''native'', ''src'']"
  shows "\<exists>w3. run_cargo_build host_tc args0 w = Inr w3 \<and> cwd w3 = [''native'', ''src'']
           \<and> fs w3 = tree_cargo"
  using assms
  by (simp add: run_cargo_build_def args0_def cargo_target_set_def py_inter_def py_set_def
        py_iter_def
        rust_targets_def Let_def archs_def triples_def cargo_arch_def startswith_def
        run_cargo_def execv_def host_tc_def host0_def toolchain_def log_def error_def
        mkdir_def locate_def then_do_def mv_def shutil_move_def fresh_world_def tree_cargo_def)

lemma host_tc_posix: "is_windows host_tc = False"
  by (simp add: host_tc_def host0_def)

lemma flag_stage:
  assumes "fs w = tree_cargo" and "cwd w = []"
  shows "\<exists>w4. dump_flag_header host_tc config0 args0 w = Inr w4 \<and> cwd w4 = []
           \<and> fs w4 = tree_flags"
  using assms
  by (simp add: dump_flag_header_def mkdir_parents_def make_dirs_def is_file_def
        native_gen_path_def mkdir_def then_do_def
        write_if_diff_def locate_def Let_def path_exists_def write_text_def write_file_def
        newline_out_def host_tc_posix log_def tree_cargo_def tree_flags_def)

lemma toolchain_preload: "toolchain (Shell s) dir tree_flags = (0,
     Dir [(''native'', Dir [(''src'', Dir []),
       (''out'', Dir [(''armeabi-v7a'', Dir []), (''x86'', Dir []), (''arm64-v8a'', Dir []),
                      (''x86_64'', Dir []),
                      (''generated'', Dir [(''flags.h'', File False (flag_txt config0 args0))])]),
       (''libs'', built_libs)])])"
  by (simp add: toolchain_def tree_flags_def)

lemma relocate_preload:
  "relocate_fs []
     (Dir [(''native'', Dir [(''src'', Dir []),
       (''out'', Dir [(''armeabi-v7a'', Dir []), (''x86'', Dir []), (''arm64-v8a'', Dir []),
                      (''x86_64'', Dir []),
                      (''generated'', Dir [(''flags.h'', File False (flag_txt config0 args0))])]),
       (''libs'', built_libs)])]) = tree_preload"
  by (simp add: relocate_fs_def mv_fs_def archs_def support_targets_def default_targets_def
        shutil_move_def is_dir_def path_exists_def built_libs_def tree_preload_def)

lemma preload_stage:
  assumes "fs w = tree_flags" and "cwd w = []"
  shows "\<exists>w5. run_ndk_build host_tc flags w = Inr w5 \<and> cwd w5 = [] \<and> fs w5 = tree_preload"
proof -
  have rp: "run_proc host_tc = toolchain" by (simp add: host_tc_def)
  have n: "is_dir (fs w) (cwd w @ [''native''])"
    unfolding assms by (simp add: tree_flags_def is_dir_def)
  have z: "fst (ndk_proc host_tc flags w) = 0"
    unfolding ndk_proc_def rp assms(1) toolchain_preload by simp
  have d: "is_dir (snd (ndk_proc host_tc flags w)) (cwd w)"
    unfolding ndk_proc_def rp assms toolchain_preload by (simp add: is_dir_def)
  from run_ndk_build_trace [OF n z d] obtain w5 where
    r: "run_ndk_build host_tc flags w = Inr w5" and c: "cwd w5 = cwd w"
    by blast
  from run_ndk_build_fs [OF r] have "fs w5 = tree_preload"
    unfolding ndk_proc_def rp assms toolchain_preload by (simp add: relocate_preload)
  with r c assms(2) show ?thesis by simp
qed

lemma payload_stage:
  assumes "fs w = tree_preload" and "cwd w = []"
  shows "\<exists>w6. dump_bin_header host_tc w = Inr w6 \<and> cwd w6 = [] \<and> fs w6 = tree_payload"
  using assms
  by (simp add: dump_bin_header_def dump_bin_header_arch_def archs_def mkdir_parents_def
        make_dirs_def is_file_def
        read_file_def native_gen_path_def mkdir_def then_do_def write_if_diff_def locate_def
        Let_def path_exists_def write_text_def write_file_def newline_out_def host_tc_posix
        log_def tree_preload_def tree_payload_def)

lemma embed_stage:
  assumes "fs w = tree_payload" and "cwd w = []"
  shows "\<exists>w7. run_ndk_build host_tc flags w = Inr w7 \<and> cwd w7 = []"
proof -
  have rp: "run_proc host_tc = toolchain" by (simp add: host_tc_def)
  have n: "is_dir (fs w) (cwd w @ [''native''])"
    unfolding assms by (simp add: tree_payload_def is_dir_def)
  have z: "fst (ndk_proc host_tc flags w) = 0"
    unfolding ndk_proc_def rp assms(1) by (simp add: toolchain_def tree_payload_def)
  have d: "is_dir (snd (ndk_proc host_tc flags w)) (cwd w)"
    unfolding ndk_proc_def rp assms by (simp add: toolchain_def tree_payload_def is_dir_def)
  from run_ndk_build_trace [OF n z d] assms(2) show ?thesis by auto
qed

lemma ndk_verified_host_tc: "ndk_verified host_tc config0"
  by (simp add: ndk_verified_def host_tc_def host0_def config0_def strip_def is_space_def)

lemma select_magiskinit: "select_targets [''magiskinit''] = Some [''magiskinit'']"
  by (simp add: select_targets_def py_inter_def py_set_def support_targets_def default_targets_def)

lemma magiskinit_flags:
  "first_pass_flag [''magiskinit''] = '' B_PRELOAD=1''"
  "second_pass_flag [''magiskinit''] = '' B_INIT=1''"
  "clean_wanted [''magiskinit''] = False"
  "cargo_target_set [''magiskinit''] = [''magiskinit'']"
  by (simp_all add: first_pass_flag_def second_pass_flag_def clean_wanted_def
        cargo_target_set_def py_inter_def py_set_def rust_targets_def)

lemma magiskinit_run:
  "\<exists>w'. build_binary host_tc config0 args0 fresh_world = Inr w'"
proof -
  let ?w1 = "header (''* Building binaries: '' @ join '' '' [''magiskinit'']) fresh_world"
  let ?w2 = "?w1\<lparr>cwd := [''native'', ''src'']\<rparr>"
  have s2: "chdir [''native'', ''src''] ?w1 = Inr ?w2"
    by (simp add: chdir_def header_def log_def fresh_world_def)
  have "fs ?w2 = fs fresh_world" "cwd ?w2 = [''native'', ''src'']"
    by (simp_all add: header_def log_def fresh_world_def)
  from run_cargo_stage [OF this] obtain w3 where
    s3: "run_cargo_build host_tc args0 ?w2 = Inr w3" and c3: "cwd w3 = [''native'', ''src'']"
    and f3: "fs w3 = tree_cargo"
    by blast
  have s3': "chdir [''..'', ''..''] w3 = Inr (w3\<lparr>cwd := []\<rparr>)"
    using c3 f3 by (simp add: chdir_def tree_cargo_def)
  have "fs (w3\<lparr>cwd := []\<rparr>) = tree_cargo" "cwd (w3\<lparr>cwd := []\<rparr>) = []"
    using f3 by simp_all
  from flag_stage [OF this] obtain w4 where
    s4: "dump_flag_header host_tc config0 args0 (w3\<lparr>cwd := []\<rparr>) = Inr w4" and c4: "cwd w4 = []"
    and f4: "fs w4 = tree_flags"
    by blast
  from preload_stage [OF f4 c4] obtain w5 where
    s5: "run_ndk_build host_tc '' B_PRELOAD=1'' w4 = Inr w5" and c5: "cwd w5 = []"
    and f5: "fs w5 = tree_preload"
    by blast
  from payload_stage [OF f5 c5] obtain w6 where
    s6: "dump_bin_header host_tc w5 = Inr w6" and c6: "cwd w6 = []" and f6: "fs w6 = tree_payload"
    by blast
  from embed_stage [OF f6 c6] obtain w7 where
    s7: "run_ndk_build host_tc ('' B_INIT=1'' @ '' B_CRT0=1'') w6 = Inr w7"
    by blast
  have a: "args0\<lparr>target := Some [''magiskinit'']\<rparr> = args0" by (simp add: args0_def)
  have "build_selected host_tc config0 args0 [''magiskinit''] fresh_world = Inr w7"
    unfolding build_selected_def Let_def magiskinit_flags s2 then_do_Inr s3 s3' s4
    using s5 s6 s7 by (simp add: then_do_Inr)
  moreover have "build_binary host_tc config0 args0 fresh_world
      = build_selected host_tc config0 args0 [''magiskinit''] fresh_world"
    using ndk_verified_host_tc select_magiskinit a
    by (simp add: build_binary_def args0_def py_iter_single Let_def)
  ultimately show ?thesis by simp
qed

lemma cargo_exec_target: "cargo_exec h (a\<lparr>target := x\<rparr>) = cargo_exec h a"
  by (rule ext)+ (simp add: cargo_exec_def)

lemma cargo_steps_single:
  "cargo_steps h a [t] dir =
     [cargo_exec h a t ''thumbv7neon-linux-androideabi'' dir,
      cargo_exec h a t ''i686-linux-android'' dir,
      cargo_exec h a t ''aarch64-linux-android'' dir,
      cargo_exec h a t ''x86_64-linux-android'' dir]"
  by (simp add: cargo_steps_def triples_def rust_triple_of_def startswith_def)

lemma flag_txt_release:
  assumes "release a"
  shows \<open>suffix ''#define MAGISK_DEBUG        0\<newline>'' (flag_txt cfg a)\<close>
proof -
  have \<open>flag_txt cfg a =
      (flag_template
         @ (''#define MAGISK_VERSION      "'' @ version cfg @ ''"\<newline>'')
         @ (''#define MAGISK_VER_CODE     '' @ str_int (versionCode cfg) @ ''\<newline>''))
      @ ''#define MAGISK_DEBUG        0\<newline>''\<close>
    using assms str_int_bit [of True] by (simp add: flag_txt_def)
  then show ?thesis by (rule suffixI)
qed

text \<open>
  C3, as the code has it. A release build of \<open>magiskinit\<close> alone that succeeds performs, in
  this order: \<open>cargo build\<close> of \<open>magiskinit\<close> for the four Rust triples; the generation of
  the flag header, whose text ends in \<open>MAGISK_DEBUG 0\<close>; the \<open>ndk-build\<close> pass whose flags
  are \<open>B_PRELOAD=1\<close> alone; the generation of the payload headers of the four
  architectures; the \<open>ndk-build\<close> pass with the flags \<open>B_INIT=1 B_CRT0=1\<close>. These are all
  the processes of the run: the ELF cleaner is not among them.
\<close>

theorem magiskinit_release_pipeline:
  assumes "ndk_verified h cfg" and "target a = Some [''magiskinit'']" and "release a"
    and "cwd w = []" and "build_binary h cfg a w = Inr w'"
  shows \<open>(\<exists>libs. length libs = 4
           \<and> steps (trace w') = steps (trace w)
               @ [cargo_exec h a ''magiskinit'' ''thumbv7neon-linux-androideabi'' [''native'', ''src''],
                  cargo_exec h a ''magiskinit'' ''i686-linux-android'' [''native'', ''src''],
                  cargo_exec h a ''magiskinit'' ''aarch64-linux-android'' [''native'', ''src''],
                  cargo_exec h a ''magiskinit'' ''x86_64-linux-android'' [''native'', ''src''],
                  WriteIfDiff [''native'', ''out'', ''generated'', ''flags.h''] (flag_txt cfg a),
                  ndk_step h '' B_PRELOAD=1'']
               @ payload_steps h archs libs
               @ [ndk_step h '' B_INIT=1 B_CRT0=1''])
         \<and> suffix ''#define MAGISK_DEBUG        0\<newline>'' (flag_txt cfg a)\<close>
proof -
  have a: "a\<lparr>target := Some [''magiskinit'']\<rparr> = a" using assms(2) by simp
  from assms(1,2,5) have b: "build_selected h cfg a [''magiskinit''] w = Inr w'"
    by (simp add: build_binary_def select_magiskinit a py_iter_single)
  from build_selected_steps [OF b assms(2,4)] obtain libs where "length libs = 4"
    and "steps (trace w') = steps (trace w)
            @ cargo_steps h a [''magiskinit''] [''native'', ''src'']
            @ [WriteIfDiff [''native'', ''out'', ''generated'', ''flags.h''] (flag_txt cfg a)]
            @ [ndk_step h '' B_PRELOAD=1'']
            @ payload_steps h archs libs
            @ [ndk_step h ('' B_INIT=1'' @ '' B_CRT0=1'')]"
    unfolding magiskinit_flags py_iter_single by auto
  then have "\<exists>libs. length libs = 4
           \<and> steps (trace w') = steps (trace w)
               @ [cargo_exec h a ''magiskinit'' ''thumbv7neon-linux-androideabi'' [''native'', ''src''],
                  cargo_exec h a ''magiskinit'' ''i686-linux-android'' [''native'', ''src''],
                  cargo_exec h a ''magiskinit'' ''aarch64-linux-android'' [''native'', ''src''],
                  cargo_exec h a ''magiskinit'' ''x86_64-linux-android'' [''native'', ''src''],
                  WriteIfDiff [''native'', ''out'', ''generated'', ''flags.h''] (flag_txt cfg a),
                  ndk_step h '' B_PRELOAD=1'']
               @ payload_steps h archs libs
               @ [ndk_step h '' B_INIT=1 B_CRT0=1'']"
    by (auto simp: cargo_steps_single)
  with flag_txt_release [OF assms(3)] show ?thesis by blast
qed

theorem magiskinit_release_pipeline_witness:
  \<open>ndk_verified host_tc config0
   \<and> target args0 = Some [''magiskinit'']
   \<and> release args0
   \<and> cwd fresh_world = []
   \<and> (\<exists>w' libs. build_binary host_tc config0 args0 fresh_world = Inr w'
         \<and> length libs = 4
         \<and> steps (trace w') =
             [cargo_exec host_tc args0 ''magiskinit'' ''thumbv7neon-linux-androideabi'' [''native'', ''src''],
              cargo_exec host_tc args0 ''magiskinit'' ''i686-linux-android'' [''native'', ''src''],
              cargo_exec host_tc args0 ''magiskinit'' ''aarch64-linux-android'' [''native'', ''src''],
              cargo_exec host_tc args0 ''magiskinit'' ''x86_64-linux-android'' [''native'', ''src''],
              WriteIfDiff [''native'', ''out'', ''generated'', ''flags.h''] (flag_txt config0 args0),
              ndk_step host_tc '' B_PRELOAD=1'']
             @ payload_steps host_tc archs libs
             @ [ndk_step host_tc '' B_INIT=1 B_CRT0=1''])
   \<and> suffix ''#define MAGISK_DEBUG        0\<newline>'' (flag_txt config0 args0)
   \<and> cargo_exec host_tc args0 ''magiskinit'' ''i686-linux-android'' [''native'', ''src''] =
       Exec (Argv [''/opt/sdk/ndk/magisk/toolchains/rust/bin/cargo'', ''build'', ''-p'', ''magiskinit'',
                   ''-r'', ''-q'', ''--target'', ''i686-linux-android'']
                  [(''PATH'', ''/opt/sdk/ndk/magisk/toolchains/rust/bin:/usr/bin''),
                   (''CARGO_BUILD_RUSTC'', ''/opt/sdk/ndk/magisk/toolchains/rust/bin/rustc''),
                   (''RUSTFLAGS'', ''-Clinker-plugin-lto -Zthreads=4'')])
            [''native'', ''src'']
   \<and> ndk_step host_tc '' B_INIT=1 B_CRT0=1'' =
       Exec (Shell ''/opt/sdk/ndk/magisk/ndk-build NDK_PROJECT_PATH=. NDK_APPLICATION_MK=src/Application.mk  B_INIT=1 B_CRT0=1 -j4'')
            [''native'']\<close>
proof -
  have h1: "ndk_verified host_tc config0" by (rule ndk_verified_host_tc)
  have h2: "target args0 = Some [''magiskinit'']" by (simp add: args0_def)
  have h3: "release args0" by (simp add: args0_def)
  have h4: "cwd fresh_world = []" by (simp add: fresh_world_def)
  from magiskinit_run obtain v where h5: "build_binary host_tc config0 args0 fresh_world = Inr v"
    by blast
  have tr: "steps (trace fresh_world) = []" by (simp add: fresh_world_def steps_simps)
  from magiskinit_release_pipeline [OF h1 h2 h3 h4 h5] obtain libs where l: "length libs = 4"
    and s: "steps (trace v) =
             [cargo_exec host_tc args0 ''magiskinit'' ''thumbv7neon-linux-androideabi'' [''native'', ''src''],
              cargo_exec host_tc args0 ''magiskinit'' ''i686-linux-android'' [''native'', ''src''],
              cargo_exec host_tc args0 ''magiskinit'' ''aarch64-linux-android'' [''native'', ''src''],
              cargo_exec host_tc args0 ''magiskinit'' ''x86_64-linux-android'' [''native'', ''src''],
              WriteIfDiff [''native'', ''out'', ''generated'', ''flags.h''] (flag_txt config0 args0),
              ndk_step host_tc '' B_PRELOAD=1'']
             @ payload_steps host_tc archs libs
             @ [ndk_step host_tc '' B_INIT=1 B_CRT0=1'']"
    and d: \<open>suffix ''#define MAGISK_DEBUG        0\<newline>'' (flag_txt config0 args0)\<close>
    unfolding tr by auto
  from h5 l s have c1: "\<exists>w' libs. build_binary host_tc config0 args0 fresh_world = Inr w'
         \<and> length libs = 4
         \<and> steps (trace w') =
             [cargo_exec host_tc args0 ''magiskinit'' ''thumbv7neon-linux-androideabi'' [''native'', ''src''],
              cargo_exec host_tc args0 ''magiskinit'' ''i686-linux-android'' [''native'', ''src''],
              cargo_exec host_tc args0 ''magiskinit'' ''aarch64-linux-android'' [''native'', ''src''],
              cargo_exec host_tc args0 ''magiskinit'' ''x86_64-linux-android'' [''native'', ''src''],
              WriteIfDiff [''native'', ''out'', ''generated'', ''flags.h''] (flag_txt config0 args0),
              ndk_step host_tc '' B_PRELOAD=1'']
             @ payload_steps host_tc archs libs
             @ [ndk_step host_tc '' B_INIT=1 B_CRT0=1'']"
    by blast
  have e1: "cargo_exec host_tc args0 ''magiskinit'' ''i686-linux-android'' [''native'', ''src''] =
       Exec (Argv [''/opt/sdk/ndk/magisk/toolchains/rust/bin/cargo'', ''build'', ''-p'', ''magiskinit'',
                   ''-r'', ''-q'', ''--target'', ''i686-linux-android'']
                  [(''PATH'', ''/opt/sdk/ndk/magisk/toolchains/rust/bin:/usr/bin''),
                   (''CARGO_BUILD_RUSTC'', ''/opt/sdk/ndk/magisk/toolchains/rust/bin/rustc''),
                   (''RUSTFLAGS'', ''-Clinker-plugin-lto -Zthreads=4'')])
            [''native'', ''src'']"
    by (simp add: cargo_exec_def cargo_env_def host_tc_def host0_def args0_def path_str_def
          cargo_def rust_bin_def ndk_path_def EXE_EXT_def str_nat.simps digit_char_def)
  have e2: "ndk_step host_tc '' B_INIT=1 B_CRT0=1'' =
       Exec (Shell ''/opt/sdk/ndk/magisk/ndk-build NDK_PROJECT_PATH=. NDK_APPLICATION_MK=src/Application.mk  B_INIT=1 B_CRT0=1 -j4'')
            [''native'']"
    by (simp add: ndk_step_def ndk_command_def host_tc_def host0_def path_str_def ndk_build_def
          ndk_path_def str_nat.simps digit_char_def)
  from h1 h2 h3 h4 c1 d e1 e2 show ?thesis by (iprover intro: conjI)
qed

text \<open>
  The order the claim gives puts the pre-load pass of \<open>ndk-build\<close> before the generation of
  the flag header. In the run of the example the flag header is generated first.
\<close>

definition run_steps :: "exn + world \<Rightarrow> event list" where
  "run_steps r = (case r of Inl e \<Rightarrow> [] | Inr w \<Rightarrow> steps (trace w))"

definition before :: "event \<Rightarrow> event \<Rightarrow> event list \<Rightarrow> bool" where
  "before x y xs = (y \<in> set (tl (dropWhile (\<lambda>e. e \<noteq> x) xs)))"

theorem flag_header_precedes_preload_pass:
  "succeeds (build_binary host_tc config0 args0 fresh_world)
   \<and> \<not> before (ndk_step host_tc '' B_PRELOAD=1'')
               (WriteIfDiff [''native'', ''out'', ''generated'', ''flags.h''] (flag_txt config0 args0))
               (run_steps (build_binary host_tc config0 args0 fresh_world))
   \<and> before (WriteIfDiff [''native'', ''out'', ''generated'', ''flags.h''] (flag_txt config0 args0))
            (ndk_step host_tc '' B_PRELOAD=1'')
            (run_steps (build_binary host_tc config0 args0 fresh_world))"
proof -
  from magiskinit_run obtain v where h5: "build_binary host_tc config0 args0 fresh_world = Inr v"
    by blast
  have tr: "steps (trace fresh_world) = []" by (simp add: fresh_world_def steps_simps)
  have h2: "target args0 = Some [''magiskinit'']" and h3: "release args0"
    by (simp_all add: args0_def)
  have h4: "cwd fresh_world = []" by (simp add: fresh_world_def)
  from magiskinit_release_pipeline [OF ndk_verified_host_tc h2 h3 h4 h5]
  obtain libs where l: "length libs = 4"
    and s: "steps (trace v) =
             [cargo_exec host_tc args0 ''magiskinit'' ''thumbv7neon-linux-androideabi'' [''native'', ''src''],
              cargo_exec host_tc args0 ''magiskinit'' ''i686-linux-android'' [''native'', ''src''],
              cargo_exec host_tc args0 ''magiskinit'' ''aarch64-linux-android'' [''native'', ''src''],
              cargo_exec host_tc args0 ''magiskinit'' ''x86_64-linux-android'' [''native'', ''src''],
              WriteIfDiff [''native'', ''out'', ''generated'', ''flags.h''] (flag_txt config0 args0),
              ndk_step host_tc '' B_PRELOAD=1'']
             @ payload_steps host_tc archs libs
             @ [ndk_step host_tc '' B_INIT=1 B_CRT0=1'']"
    unfolding tr by auto
  from l obtain l1 l2 l3 l4 where libs: "libs = [l1, l2, l3, l4]"
    by (auto simp: length_Suc_conv numeral_eq_Suc)
  have r: "run_steps (build_binary host_tc config0 args0 fresh_world) = steps (trace v)"
    by (simp add: run_steps_def h5)
  have a: "succeeds (build_binary host_tc config0 args0 fresh_world)"
    by (simp add: succeeds_def h5)
  have b: "\<not> before (ndk_step host_tc '' B_PRELOAD=1'')
               (WriteIfDiff [''native'', ''out'', ''generated'', ''flags.h''] (flag_txt config0 args0))
               (run_steps (build_binary host_tc config0 args0 fresh_world))"
    unfolding r s libs
    by (simp add: before_def cargo_exec_def ndk_step_def payload_steps_def archs_def ndk_command_def)
  have c: "before (WriteIfDiff [''native'', ''out'', ''generated'', ''flags.h''] (flag_txt config0 args0))
            (ndk_step host_tc '' B_PRELOAD=1'')
            (run_steps (build_binary host_tc config0 args0 fresh_world))"
    unfolding r s libs
    by (simp add: before_def cargo_exec_def ndk_step_def payload_steps_def archs_def ndk_command_def)
  from a b c show ?thesis by (iprover intro: conjI)
qed


subsection \<open>The dependency of \<open>resetprop\<close> on \<open>magisk\<close>\<close>

lemma set_cargo_target_set:
  "set (cargo_target_set tgt) =
     (set tgt \<inter> set rust_targets) \<union> (if ''resetprop'' \<in> set tgt then {''magisk''} else {})"
  by (simp add: cargo_target_set_def Let_def set_py_add set_py_inter set_py_set)

lemma distinct_cargo_target_set: "distinct (cargo_target_set tgt)"
  by (simp add: cargo_target_set_def Let_def py_add_def py_inter_def py_set_def)

lemma cargo_steps_target: "cargo_steps h (a\<lparr>target := x\<rparr>) = cargo_steps h a"
  by (rule ext)+ (simp add: cargo_steps_def cargo_exec_target)

lemma cargo_steps_member:
  assumes "t \<in> set targets" and "triple \<in> set triples"
  shows "cargo_exec h a t (rust_triple_of triple) dir \<in> set (cargo_steps h a targets dir)"
  using assms by (auto simp: cargo_steps_def)

text \<open>
  The claim has the resolved set of \<open>resetprop\<close> alone hold both \<open>resetprop\<close> and
  \<open>magisk\<close>. The resolved set, the new value of \<open>args.target\<close>, holds \<open>resetprop\<close> only; the
  set that \<open>run_cargo_build\<close> builds holds \<open>magisk\<close> only.
\<close>

theorem resetprop_alone_resolved_set:
  "select_targets [''resetprop''] = Some [''resetprop'']
   \<and> ''magisk'' \<notin> set [''resetprop'']
   \<and> cargo_target_set [''resetprop''] = [''magisk'']
   \<and> ''resetprop'' \<notin> set [''magisk'']"
  by (simp add: select_targets_def py_inter_def py_set_def support_targets_def default_targets_def
        cargo_target_set_def rust_targets_def py_add_def)

text \<open>
  C2, as the code has it. Whenever the resolved set holds \<open>resetprop\<close>, the set of targets
  that \<open>cargo\<close> builds holds \<open>magisk\<close>: it is the resolved set restricted to the Rust
  targets, with \<open>magisk\<close> added. An iteration over a set visits each member once, in an
  order that the script does not fix. In a build that succeeds the first steps of the run
  are the \<open>cargo\<close> builds of the members of that set, for each triple in turn and within a
  triple in the iteration order of the set; the build of \<open>magisk\<close> for each triple is among
  them. \<open>magisk\<close> is not added to the resolved set itself.
\<close>

theorem resetprop_pulls_magisk:
  "(''resetprop'' \<in> set tgt \<longrightarrow> ''magisk'' \<in> set (cargo_target_set tgt))
   \<and> set (cargo_target_set tgt) =
       (set tgt \<inter> set rust_targets) \<union> (if ''resetprop'' \<in> set tgt then {''magisk''} else {})
   \<and> set (py_iter h s) = set s \<and> length (py_iter h s) = length s
   \<and> (ndk_verified h cfg \<and> target a = Some requested \<and> select_targets requested = Some tgt
        \<and> ''resetprop'' \<in> set tgt \<and> cwd w = [] \<and> build_binary h cfg a w = Inr w'
        \<and> triple \<in> set triples \<longrightarrow>
        (\<exists>order rest. set order = set (cargo_target_set tgt) \<and> distinct order
           \<and> steps (trace w') = steps (trace w)
                 @ cargo_steps h a order [''native'', ''src''] @ rest
           \<and> cargo_exec h a ''magisk'' (rust_triple_of triple) [''native'', ''src'']
                \<in> set (cargo_steps h a order [''native'', ''src''])))"
proof -
  have a: "''resetprop'' \<in> set tgt \<longrightarrow> ''magisk'' \<in> set (cargo_target_set tgt)"
    by (simp add: set_cargo_target_set)
  note b = set_cargo_target_set [of tgt]
  note i1 = py_iter_set [of h s]
  note i2 = py_iter_length [of h s]
  have c: "ndk_verified h cfg \<and> target a = Some requested \<and> select_targets requested = Some tgt
        \<and> ''resetprop'' \<in> set tgt \<and> cwd w = [] \<and> build_binary h cfg a w = Inr w'
        \<and> triple \<in> set triples \<longrightarrow>
        (\<exists>order rest. set order = set (cargo_target_set tgt) \<and> distinct order
           \<and> steps (trace w') = steps (trace w)
                 @ cargo_steps h a order [''native'', ''src''] @ rest
           \<and> cargo_exec h a ''magisk'' (rust_triple_of triple) [''native'', ''src'']
                \<in> set (cargo_steps h a order [''native'', ''src'']))"
  proof (intro impI, elim conjE)
    assume h: "ndk_verified h cfg" "target a = Some requested" "select_targets requested = Some tgt"
      "''resetprop'' \<in> set tgt" "cwd w = []" "build_binary h cfg a w = Inr w'"
      "triple \<in> set triples"
    have ne: "requested \<noteq> []"
    proof
      assume "requested = []"
      with h(3) have "tgt = default_targets" by (simp add: select_targets_Nil)
      with h(4) show False by (simp add: default_targets_def)
    qed
    let ?t = "py_iter h tgt"
    let ?a = "a\<lparr>target := Some ?t\<rparr>"
    let ?order = "py_iter h (cargo_target_set ?t)"
    from h(1,2,3,6) ne have bs: "build_selected h cfg ?a ?t w = Inr w'"
      by (simp add: build_binary_def Let_def)
    have ta: "target ?a = Some ?t" by simp
    from build_selected_steps [OF bs ta h(5)]
    have "\<exists>rest. steps (trace w') = steps (trace w)
                    @ cargo_steps h ?a ?order [''native'', ''src''] @ rest"
      by blast
    then have 1: "\<exists>rest. steps (trace w') = steps (trace w)
                    @ cargo_steps h a ?order [''native'', ''src''] @ rest"
      by (simp add: cargo_steps_target)
    have 2: "set ?order = set (cargo_target_set tgt)"
      by (simp add: py_iter_set set_cargo_target_set)
    have 3: "distinct ?order"
      by (simp add: py_iter_distinct distinct_cargo_target_set)
    from h(4) 2 have "''magisk'' \<in> set ?order" by (simp add: set_cargo_target_set)
    from cargo_steps_member [OF this h(7)]
    have 4: "cargo_exec h a ''magisk'' (rust_triple_of triple) [''native'', ''src'']
             \<in> set (cargo_steps h a ?order [''native'', ''src''])" .
    from 1 2 3 4 show "\<exists>order rest. set order = set (cargo_target_set tgt) \<and> distinct order
           \<and> steps (trace w') = steps (trace w)
                 @ cargo_steps h a order [''native'', ''src''] @ rest
           \<and> cargo_exec h a ''magisk'' (rust_triple_of triple) [''native'', ''src'']
                \<in> set (cargo_steps h a order [''native'', ''src''])"
      by blast
  qed
  from a b i1 i2 c show ?thesis by (iprover intro: conjI)
qed

definition args_resetprop :: args where
  "args_resetprop = \<lparr>target = Some [''resetprop''], release = True, verbose = False\<rparr>"

lemma run_cargo_stage_resetprop:
  assumes "fs w = fs fresh_world" and "cwd w = [''native'', ''src'']"
  shows "\<exists>w3. run_cargo_build host_tc args_resetprop w = Inr w3 \<and> cwd w3 = [''native'', ''src'']
           \<and> fs w3 = tree_cargo"
  using assms
  by (simp add: run_cargo_build_def args_resetprop_def cargo_target_set_def py_inter_def py_set_def
        py_add_def py_iter_def
        rust_targets_def Let_def archs_def triples_def cargo_arch_def startswith_def
        run_cargo_def execv_def host_tc_def host0_def toolchain_def log_def error_def
        mkdir_def locate_def then_do_def mv_def shutil_move_def fresh_world_def tree_cargo_def)

lemma dump_flag_header_profile:
  "release a = release a' \<Longrightarrow> dump_flag_header h cfg a = dump_flag_header h cfg a'"
  by (rule ext) (simp add: dump_flag_header_def flag_txt_def)

lemma resetprop_run:
  "\<exists>w'. build_binary host_tc config0 args_resetprop fresh_world = Inr w'"
proof -
  let ?w1 = "header (''* Building binaries: '' @ join '' '' [''resetprop'']) fresh_world"
  let ?w2 = "?w1\<lparr>cwd := [''native'', ''src'']\<rparr>"
  have s2: "chdir [''native'', ''src''] ?w1 = Inr ?w2"
    by (simp add: chdir_def header_def log_def fresh_world_def)
  have "fs ?w2 = fs fresh_world" "cwd ?w2 = [''native'', ''src'']"
    by (simp_all add: header_def log_def fresh_world_def)
  from run_cargo_stage_resetprop [OF this] obtain w3 where
    s3: "run_cargo_build host_tc args_resetprop ?w2 = Inr w3" and c3: "cwd w3 = [''native'', ''src'']"
    and f3: "fs w3 = tree_cargo"
    by blast
  have s3': "chdir [''..'', ''..''] w3 = Inr (w3\<lparr>cwd := []\<rparr>)"
    using c3 f3 by (simp add: chdir_def tree_cargo_def)
  have "fs (w3\<lparr>cwd := []\<rparr>) = tree_cargo" "cwd (w3\<lparr>cwd := []\<rparr>) = []"
    using f3 by simp_all
  from flag_stage [OF this] obtain w4 where
    s4: "dump_flag_header host_tc config0 args0 (w3\<lparr>cwd := []\<rparr>) = Inr w4" and c4: "cwd w4 = []"
    and f4: "fs w4 = tree_flags"
    by blast
  have "release args_resetprop = release args0" by (simp add: args_resetprop_def args0_def)
  from dump_flag_header_profile [OF this] s4
  have s4': "dump_flag_header host_tc config0 args_resetprop (w3\<lparr>cwd := []\<rparr>) = Inr w4" by simp
  from preload_stage [OF f4 c4] obtain w5 where
    s5: "run_ndk_build host_tc '' B_PROP=1'' w4 = Inr w5"
    by blast
  have fl: "first_pass_flag [''resetprop''] = '' B_PROP=1''" "second_pass_flag [''resetprop''] = []"
    "clean_wanted [''resetprop''] = False"
    by (simp_all add: first_pass_flag_def second_pass_flag_def clean_wanted_def)
  have a: "args_resetprop\<lparr>target := Some [''resetprop'']\<rparr> = args_resetprop"
    by (simp add: args_resetprop_def)
  have "build_selected host_tc config0 args_resetprop [''resetprop''] fresh_world = Inr w5"
    unfolding build_selected_def Let_def fl s2 then_do_Inr s3 s3' s4'
    using s5 by (simp add: then_do_Inr)
  moreover have "build_binary host_tc config0 args_resetprop fresh_world
      = build_selected host_tc config0 args_resetprop [''resetprop''] fresh_world"
    using ndk_verified_host_tc a
    by (simp add: build_binary_def args_resetprop_def select_targets_def py_inter_def py_set_def
          support_targets_def default_targets_def py_iter_single Let_def)
  ultimately show ?thesis by simp
qed

theorem resetprop_pulls_magisk_witness:
  "''resetprop'' \<in> set [''resetprop'']
   \<and> ''magisk'' \<in> set (cargo_target_set [''resetprop''])
   \<and> cargo_target_set [''resetprop''] = [''magisk'']
   \<and> first_pass_flag [''resetprop''] = '' B_PROP=1''
   \<and> ndk_verified host_tc config0
   \<and> target args_resetprop = Some [''resetprop'']
   \<and> select_targets [''resetprop''] = Some [''resetprop'']
   \<and> cwd fresh_world = []
   \<and> ''x86_64-linux-android'' \<in> set triples
   \<and> (\<exists>w' rest. build_binary host_tc config0 args_resetprop fresh_world = Inr w'
         \<and> steps (trace w') =
             cargo_steps host_tc args_resetprop [''magisk''] [''native'', ''src''] @ rest)
   \<and> cargo_exec host_tc args_resetprop ''magisk'' ''x86_64-linux-android'' [''native'', ''src'']
        \<in> set (cargo_steps host_tc args_resetprop [''magisk''] [''native'', ''src''])"
proof -
  have h0: "''resetprop'' \<in> set [''resetprop'']" by simp
  have cs: "cargo_target_set [''resetprop''] = [''magisk'']"
    by (simp add: cargo_target_set_def py_inter_def py_set_def rust_targets_def py_add_def)
  have fl: "first_pass_flag [''resetprop''] = '' B_PROP=1''" by (simp add: first_pass_flag_def)
  have h2: "target args_resetprop = Some [''resetprop'']" by (simp add: args_resetprop_def)
  have h3: "select_targets [''resetprop''] = Some [''resetprop'']"
    by (simp add: select_targets_def py_inter_def py_set_def support_targets_def default_targets_def)
  have h4: "cwd fresh_world = []" by (simp add: fresh_world_def)
  have h5: "''x86_64-linux-android'' \<in> set triples" by (simp add: triples_def)
  from resetprop_run obtain v where h6: "build_binary host_tc config0 args_resetprop fresh_world = Inr v"
    by blast
  have tr: "steps (trace fresh_world) = []" by (simp add: fresh_world_def steps_simps)
  have rt: "rust_triple_of ''x86_64-linux-android'' = ''x86_64-linux-android''"
    by (simp add: rust_triple_of_def startswith_def)
  note t = resetprop_pulls_magisk [of "[''resetprop'']" host_tc "[]" config0 args_resetprop
      "[''resetprop'']" fresh_world v "''x86_64-linux-android''"]
  from t h0 have c0: "''magisk'' \<in> set (cargo_target_set [''resetprop''])" by blast
  from t ndk_verified_host_tc h0 h2 h3 h4 h5 h6 obtain order rest where
    o1: "set order = set (cargo_target_set [''resetprop''])" and o2: "distinct order"
    and c1: "steps (trace v) = steps (trace fresh_world)
           @ cargo_steps host_tc args_resetprop order [''native'', ''src''] @ rest"
    and c2: "cargo_exec host_tc args_resetprop ''magisk'' (rust_triple_of ''x86_64-linux-android'')
               [''native'', ''src'']
             \<in> set (cargo_steps host_tc args_resetprop order [''native'', ''src''])"
    by blast
  have order: "order = [''magisk'']"
  proof (cases order)
    case Nil
    with o1 cs show ?thesis by simp
  next
    case (Cons x xs)
    with o1 o2 cs have x: "x = ''magisk''" and "set xs \<subseteq> {''magisk''}" "x \<notin> set xs"
      by auto
    then have "xs = []" by (cases xs) auto
    with Cons x show ?thesis by simp
  qed
  from c1 h6 have c1': "\<exists>w' rest. build_binary host_tc config0 args_resetprop fresh_world = Inr w'
         \<and> steps (trace w') =
             cargo_steps host_tc args_resetprop [''magisk''] [''native'', ''src''] @ rest"
    unfolding tr order by auto
  from c2 have c2': "cargo_exec host_tc args_resetprop ''magisk'' ''x86_64-linux-android'' [''native'', ''src'']
        \<in> set (cargo_steps host_tc args_resetprop [''magisk''] [''native'', ''src''])"
    unfolding order rt .
  from h0 c0 cs fl ndk_verified_host_tc h2 h3 h4 h5 c1' c2' show ?thesis
    by (iprover intro: conjI)
qed

end
